theory Spec2Isabelle
  imports Main "HOL-Library.Word"
begin

unbundle bit_operations_syntax

section \<open>Integer tuple relations\<close>

text \<open>
  Modelled from the spec: the analysis of \<^verbatim>\<open>lib/Analysis/Dependences.cpp\<close> is written
  against the relation algebra engine (the integer set library), which is not among the
  sources; its objects and operations are modelled by what they denote. A valuation gives
  every parameter name a value. A point is an integer tuple in a named tuple space, taken
  at one valuation; a set is a set of points and a map a set of pairs of points. An object
  written over some parameters holds, with a point, every point that differs in the values
  of other names only, so that objects over different parameter tuples meet as they do
  after alignment, and a set or relation is empty exactly when it is empty at every
  valuation. Every object also carries the part of its space that the analysis reads back:
  the names of its parameters and, for a set or a map of one space, the tuple space(s) it
  lives in.
\<close>

type_synonym tuple_space = "string \<times> nat"

type_synonym valuation = "string \<Rightarrow> int"

datatype point = Pt (pv: valuation) (tuple: string) (coords: "int list")

definition space_of :: "point \<Rightarrow> tuple_space" where
  "space_of p = (tuple p, length (coords p))"

record isl_space =
  space_params :: "string list"
  space_tuples :: "tuple_space list"

record isl_set =
  set_params :: "string list"
  set_tuple :: tuple_space
  set_points :: "point set"

record isl_map =
  map_params :: "string list"
  map_in :: tuple_space
  map_out :: tuple_space
  map_pairs :: "(point \<times> point) set"

record isl_union_set =
  uset_params :: "string list"
  uset_points :: "point set"

record isl_union_map =
  umap_params :: "string list"
  umap_pairs :: "(point \<times> point) set"

text \<open>
  A pointer to an object is an \<open>option\<close>: \<open>None\<close> is \<^verbatim>\<open>NULL\<close>. The library
  accepts \<^verbatim>\<open>NULL\<close> for every argument and then returns \<^verbatim>\<open>NULL\<close>
  (or \<open>-1\<close> from a test); \<open>ptr1\<close>, \<open>ptr2\<close>, \<open>ptr_bind\<close> and \<open>ptr_bind2\<close> apply an
  operation that way, the last two an operation that can fail itself.
\<close>

definition ptr1 :: "('a \<Rightarrow> 'b) \<Rightarrow> 'a option \<Rightarrow> 'b option" where
  "ptr1 f a = (case a of None \<Rightarrow> None | Some x \<Rightarrow> Some (f x))"

definition ptr2 :: "('a \<Rightarrow> 'b \<Rightarrow> 'c) \<Rightarrow> 'a option \<Rightarrow> 'b option \<Rightarrow> 'c option" where
  "ptr2 f a b =
     (case a of None \<Rightarrow> None
      | Some x \<Rightarrow> (case b of None \<Rightarrow> None | Some y \<Rightarrow> Some (f x y)))"

definition ptr_bind :: "('a \<Rightarrow> 'b option) \<Rightarrow> 'a option \<Rightarrow> 'b option" where
  "ptr_bind f a = (case a of None \<Rightarrow> None | Some x \<Rightarrow> f x)"

definition ptr_bind2 :: "('a \<Rightarrow> 'b \<Rightarrow> 'c option) \<Rightarrow> 'a option \<Rightarrow> 'b option \<Rightarrow> 'c option" where
  "ptr_bind2 f a b =
     (case a of None \<Rightarrow> None
      | Some x \<Rightarrow> (case b of None \<Rightarrow> None | Some y \<Rightarrow> f x y))"

text \<open>Conversion of a C \<^verbatim>\<open>int\<close> to \<^verbatim>\<open>bool\<close>.\<close>

definition to_bool :: "int \<Rightarrow> bool" where
  "to_bool i = (i \<noteq> 0)"

subsection \<open>Parameters and spaces\<close>

text \<open>
  Parameters are aligned by name: the parameters of the second operand, followed by those
  only the first has; nothing changes when the two lists are the same. A parameter without
  a name is written with the empty name. The engine cannot align two different lists when
  one of them has a parameter without a name: where a set or a map of one space (a relation
  of the scop, a candidate schedule, a parameter space handed over as the model) meets
  another object, the operation then fails. Union maps and union sets that the analysis
  combines with one another are merged by name.
\<close>

definition has_named_params :: "string list \<Rightarrow> bool" where
  "has_named_params ps = ([] \<notin> set ps)"

definition merge_params :: "string list \<Rightarrow> string list \<Rightarrow> string list" where
  "merge_params ps model =
     (if ps = model then ps else model @ filter (\<lambda>p. p \<notin> set model) ps)"

definition align_params :: "string list \<Rightarrow> string list \<Rightarrow> string list option" where
  "align_params ps model =
     (if ps = model \<or> (has_named_params ps \<and> has_named_params model)
      then Some (merge_params ps model)
      else None)"

definition isl_space_range :: "isl_space \<Rightarrow> isl_space" where
  "isl_space_range sp =
     \<lparr>space_params = space_params sp,
      space_tuples = (case space_tuples sp of [] \<Rightarrow> [] | ts \<Rightarrow> [last ts])\<rparr>"

definition isl_space_set_alloc :: "nat \<Rightarrow> nat \<Rightarrow> isl_space" where
  "isl_space_set_alloc nparam dim =
     \<lparr>space_params = replicate nparam [], space_tuples = [([], dim)]\<rparr>"

definition isl_space_dim :: "isl_space \<Rightarrow> nat" where
  "isl_space_dim sp = (case space_tuples sp of [] \<Rightarrow> 0 | ts \<Rightarrow> snd (last ts))"

definition isl_map_get_space :: "isl_map \<Rightarrow> isl_space" where
  "isl_map_get_space m =
     \<lparr>space_params = map_params m, space_tuples = [map_in m, map_out m]\<rparr>"

definition isl_union_map_get_space :: "isl_union_map \<Rightarrow> isl_space" where
  "isl_union_map_get_space u = \<lparr>space_params = umap_params u, space_tuples = []\<rparr>"

subsection \<open>Sets\<close>

definition isl_set_universe :: "isl_space \<Rightarrow> isl_set option" where
  "isl_set_universe sp =
     (case space_tuples sp of
        [t] \<Rightarrow> Some \<lparr>set_params = space_params sp, set_tuple = t,
                      set_points = {p. space_of p = t}\<rparr>
      | _ \<Rightarrow> None)"

definition isl_set_dim :: "isl_set option \<Rightarrow> nat" where
  "isl_set_dim s = (case s of None \<Rightarrow> 0 | Some x \<Rightarrow> snd (set_tuple x))"

text \<open>Fixing a coordinate that the set does not have is an error of the library.\<close>

definition isl_set_fix_si :: "nat \<Rightarrow> int \<Rightarrow> isl_set \<Rightarrow> isl_set option" where
  "isl_set_fix_si pos v s =
     (if pos < snd (set_tuple s)
      then Some (s\<lparr>set_points := {p \<in> set_points s. coords p ! pos = v}\<rparr>)
      else None)"

definition isl_set_align_params :: "isl_space \<Rightarrow> isl_set \<Rightarrow> isl_set option" where
  "isl_set_align_params model s =
     (case align_params (set_params s) (space_params model) of
        None \<Rightarrow> None
      | Some ps \<Rightarrow> Some (s\<lparr>set_params := ps\<rparr>))"

definition isl_set_subtract :: "isl_set \<Rightarrow> isl_set \<Rightarrow> isl_set" where
  "isl_set_subtract a b =
     a\<lparr>set_params := merge_params (set_params a) (set_params b),
       set_points := set_points a - set_points b\<rparr>"

definition isl_set_complement :: "isl_set \<Rightarrow> isl_set" where
  "isl_set_complement s =
     s\<lparr>set_points := {p. space_of p = set_tuple s \<and> p \<notin> set_points s}\<rparr>"

definition isl_union_set_from_set :: "isl_set \<Rightarrow> isl_union_set" where
  "isl_union_set_from_set s =
     \<lparr>uset_params = set_params s, uset_points = set_points s\<rparr>"

definition isl_union_set_subtract :: "isl_union_set \<Rightarrow> isl_union_set \<Rightarrow> isl_union_set" where
  "isl_union_set_subtract a b =
     \<lparr>uset_params = merge_params (uset_params a) (uset_params b),
      uset_points = uset_points a - uset_points b\<rparr>"

definition isl_union_set_extract_set :: "isl_union_set \<Rightarrow> isl_space \<Rightarrow> isl_set option" where
  "isl_union_set_extract_set us sp =
     (case space_tuples sp of
        [t] \<Rightarrow> Some \<lparr>set_params = merge_params (space_params sp) (uset_params us),
                      set_tuple = t,
                      set_points = {p \<in> uset_points us. space_of p = t}\<rparr>
      | _ \<Rightarrow> None)"

definition isl_union_set_is_empty :: "isl_union_set option \<Rightarrow> int" where
  "isl_union_set_is_empty us =
     (case us of None \<Rightarrow> - 1 | Some x \<Rightarrow> if uset_points x = {} then 1 else 0)"

subsection \<open>Lexicographic order\<close>

fun lex_lt :: "int list \<Rightarrow> int list \<Rightarrow> bool" where
  "lex_lt (x # xs) (y # ys) = (x < y \<or> (x = y \<and> lex_lt xs ys))"
| "lex_lt _ _ = False"

fun lex_le :: "int list \<Rightarrow> int list \<Rightarrow> bool" where
  "lex_le [] [] = True"
| "lex_le (x # xs) (y # ys) = (x < y \<or> (x = y \<and> lex_le xs ys))"
| "lex_le _ _ = False"

definition isl_set_lex_le_set :: "isl_set \<Rightarrow> isl_set \<Rightarrow> isl_map" where
  "isl_set_lex_le_set a b =
     \<lparr>map_params = merge_params (set_params a) (set_params b),
      map_in = set_tuple a, map_out = set_tuple b,
      map_pairs = {(p, q). p \<in> set_points a \<and> q \<in> set_points b \<and> pv p = pv q \<and>
                           lex_le (coords p) (coords q)}\<rparr>"

definition isl_map_is_empty :: "isl_map option \<Rightarrow> int" where
  "isl_map_is_empty m =
     (case m of None \<Rightarrow> - 1 | Some x \<Rightarrow> if map_pairs x = {} then 1 else 0)"

subsection \<open>Maps and union maps\<close>

definition isl_map_intersect_domain :: "isl_map \<Rightarrow> isl_set \<Rightarrow> isl_map option" where
  "isl_map_intersect_domain m s =
     (case align_params (map_params m) (set_params s) of
        None \<Rightarrow> None
      | Some ps \<Rightarrow>
          Some (m\<lparr>map_params := ps,
                  map_pairs := {(p, q) \<in> map_pairs m. p \<in> set_points s}\<rparr>))"

text \<open>
  Projecting out \<open>n\<close> output coordinates from position \<open>first\<close> on; the output tuple
  loses its name. Coordinates that the map does not have are an error of the library.
\<close>

definition project_point :: "nat \<Rightarrow> nat \<Rightarrow> point \<Rightarrow> point" where
  "project_point first n p =
     Pt (pv p) [] (take first (coords p) @ drop (first + n) (coords p))"

definition isl_map_project_out :: "isl_map \<Rightarrow> nat \<Rightarrow> nat \<Rightarrow> isl_map option" where
  "isl_map_project_out m first n =
     (if first + n \<le> snd (map_out m)
      then Some (m\<lparr>map_out := ([], snd (map_out m) - n),
                   map_pairs := (\<lambda>(p, q). (p, project_point first n q)) ` map_pairs m\<rparr>)
      else None)"

definition isl_union_map_empty :: "isl_space \<Rightarrow> isl_union_map" where
  "isl_union_map_empty sp = \<lparr>umap_params = space_params sp, umap_pairs = {}\<rparr>"

text \<open>Adding an empty map returns the union map as it is, parameters included.\<close>

definition isl_union_map_add_map :: "isl_union_map \<Rightarrow> isl_map \<Rightarrow> isl_union_map option" where
  "isl_union_map_add_map u m =
     (if map_pairs m = {} then Some u
      else
        case align_params (umap_params u) (map_params m) of
          None \<Rightarrow> None
        | Some ps \<Rightarrow> Some \<lparr>umap_params = ps, umap_pairs = umap_pairs u \<union> map_pairs m\<rparr>)"

definition isl_union_map_union :: "isl_union_map \<Rightarrow> isl_union_map \<Rightarrow> isl_union_map" where
  "isl_union_map_union a b =
     \<lparr>umap_params = merge_params (umap_params a) (umap_params b),
      umap_pairs = umap_pairs a \<union> umap_pairs b\<rparr>"

text \<open>\<open>apply_domain a b\<close> sends the domain of \<open>a\<close> through \<open>b\<close>, \<open>apply_range a b\<close> its range.\<close>

definition isl_union_map_apply_domain :: "isl_union_map \<Rightarrow> isl_union_map \<Rightarrow> isl_union_map" where
  "isl_union_map_apply_domain a b =
     \<lparr>umap_params = merge_params (umap_params a) (umap_params b),
      umap_pairs = {(r, q). \<exists>p. (p, q) \<in> umap_pairs a \<and> (p, r) \<in> umap_pairs b}\<rparr>"

definition isl_union_map_apply_range :: "isl_union_map \<Rightarrow> isl_union_map \<Rightarrow> isl_union_map" where
  "isl_union_map_apply_range a b =
     \<lparr>umap_params = merge_params (umap_params a) (umap_params b),
      umap_pairs = {(p, r). \<exists>q. (p, q) \<in> umap_pairs a \<and> (q, r) \<in> umap_pairs b}\<rparr>"

definition isl_union_map_intersect_domain :: "isl_union_map \<Rightarrow> isl_union_set \<Rightarrow> isl_union_map" where
  "isl_union_map_intersect_domain a s =
     \<lparr>umap_params = merge_params (umap_params a) (uset_params s),
      umap_pairs = {(p, q) \<in> umap_pairs a. p \<in> uset_points s}\<rparr>"

definition isl_union_map_intersect_range :: "isl_union_map \<Rightarrow> isl_union_set \<Rightarrow> isl_union_map" where
  "isl_union_map_intersect_range a s =
     \<lparr>umap_params = merge_params (umap_params a) (uset_params s),
      umap_pairs = {(p, q) \<in> umap_pairs a. q \<in> uset_points s}\<rparr>"

text \<open>
  The deltas of a relation: target minus source, for the pairs whose two points lie in one
  tuple space. Pairs across different spaces have no delta.
\<close>

definition vec_sub :: "int list \<Rightarrow> int list \<Rightarrow> int list" where
  "vec_sub b a = map (\<lambda>(y, x). y - x) (zip b a)"

definition delta :: "point \<times> point \<Rightarrow> point" where
  "delta pq = Pt (pv (fst pq)) (tuple (fst pq)) (vec_sub (coords (snd pq)) (coords (fst pq)))"

definition isl_union_map_deltas :: "isl_union_map \<Rightarrow> isl_union_set" where
  "isl_union_map_deltas u =
     \<lparr>uset_params = umap_params u,
      uset_points = delta ` {(p, q) \<in> umap_pairs u. space_of p = space_of q}\<rparr>"

text \<open>
  Coalescing and the detection of implicit equalities change how a relation is written as
  pieces and constraints, not which pairs it holds.
\<close>

definition isl_union_map_coalesce :: "isl_union_map \<Rightarrow> isl_union_map" where
  "isl_union_map_coalesce u = u"

definition isl_union_map_detect_equalities :: "isl_union_map \<Rightarrow> isl_union_map" where
  "isl_union_map_detect_equalities u = u"

section \<open>The scop\<close>

text \<open>
  Modelled from the spec: the declarations of \<^verbatim>\<open>Scop\<close>, \<^verbatim>\<open>ScopStmt\<close> and
  \<^verbatim>\<open>MemoryAccess\<close> (\<^verbatim>\<open>polly/ScopInfo.h\<close>) are not among the sources. A memory
  access has a kind, one of read, must-write and may-write, and an access relation; a
  statement has an iteration domain, a list of memory accesses and a schedule
  (scattering); a scop has a parameter space and a list of statements. \<open>stmt_id\<close> is the
  identity of the statement object, the key of a \<^verbatim>\<open>StatementToIslMapTy\<close>.
\<close>

datatype AccessKind = ReadAccess | MustWriteAccess | MayWriteAccess

record MemoryAccess =
  getKind :: AccessKind
  getAccessRelation :: isl_map

definition isRead :: "MemoryAccess \<Rightarrow> bool" where
  "isRead MA = (getKind MA = ReadAccess)"

record ScopStmt =
  stmt_id :: nat
  getDomain :: isl_set
  memaccs :: "MemoryAccess list"
  getScattering :: isl_map

definition getNumScattering :: "ScopStmt \<Rightarrow> nat" where
  "getNumScattering Stmt = snd (map_out (getScattering Stmt))"

record Scop =
  getParamSpace :: isl_space
  stmts :: "ScopStmt list"

type_synonym StatementToIslMapTy = "nat \<rightharpoonup> isl_map"

section \<open>The dataflow primitive\<close>

text \<open>
  Modelled from the spec: the engine's \<^verbatim>\<open>isl_union_map_compute_flow\<close>, called with
  a sink, a must-source, a may-source and a schedule, is not among the sources. Of its four
  results the analysis asks for the must-dependences and the may-dependences only; each is
  delivered through a pointer, as a relation or as \<^verbatim>\<open>NULL\<close> when the engine fails.
  What the engine computes from four relations is a parameter of the model,
  \<open>compute_flow\<close>; given a \<^verbatim>\<open>NULL\<close> argument the entry point computes nothing and
  delivers \<^verbatim>\<open>NULL\<close> twice. The source does not test the return code and keeps what is
  delivered.
\<close>

record flow_result =
  must_dep :: "isl_union_map option"
  may_dep :: "isl_union_map option"

type_synonym compute_flow =
  "isl_union_map \<Rightarrow> isl_union_map \<Rightarrow> isl_union_map \<Rightarrow> isl_union_map \<Rightarrow> flow_result"

definition isl_union_map_compute_flow ::
  "compute_flow \<Rightarrow> isl_union_map option \<Rightarrow> isl_union_map option \<Rightarrow> isl_union_map option
     \<Rightarrow> isl_union_map option \<Rightarrow> flow_result" where
  "isl_union_map_compute_flow flow sink must_source may_source schedule =
     (case sink of None \<Rightarrow> \<lparr>must_dep = None, may_dep = None\<rparr>
      | Some a \<Rightarrow>
     (case must_source of None \<Rightarrow> \<lparr>must_dep = None, may_dep = None\<rparr>
      | Some b \<Rightarrow>
     (case may_source of None \<Rightarrow> \<lparr>must_dep = None, may_dep = None\<rparr>
      | Some c \<Rightarrow>
     (case schedule of None \<Rightarrow> \<lparr>must_dep = None, may_dep = None\<rparr>
      | Some d \<Rightarrow> flow a b c d))))"

section \<open>The dependences pass\<close>

text \<open>
  Modelled from the spec: the kind masks of \<^verbatim>\<open>polly/Dependences.h\<close> are not among the
  sources; the three kinds are flags that combine, and \<open>TYPE_ALL\<close> is all of them.
\<close>

definition TYPE_WAR :: "32 word" where "TYPE_WAR = 1"
definition TYPE_RAW :: "32 word" where "TYPE_RAW = 2"
definition TYPE_WAW :: "32 word" where "TYPE_WAW = 4"
definition TYPE_ALL :: "32 word" where "TYPE_ALL = TYPE_WAR OR TYPE_RAW OR TYPE_WAW"

text \<open>
  The pass holds the three relations. Two counters stand for its effects outside these
  fields: \<open>flow_calls\<close> counts its invocations of the dataflow primitive, \<open>unreleased\<close>
  the relations whose pointer it has overwritten without \<^verbatim>\<open>isl_union_map_free\<close>.
\<close>

record Dependences =
  RAW :: "isl_union_map option"
  WAR :: "isl_union_map option"
  WAW :: "isl_union_map option"
  flow_calls :: nat
  unreleased :: nat

text \<open>The constructor: \<^verbatim>\<open>RAW = WAR = WAW = NULL\<close>.\<close>

definition Dependences_new :: Dependences where
  "Dependences_new = \<lparr>RAW = None, WAR = None, WAW = None, flow_calls = 0, unreleased = 0\<rparr>"

subsection \<open>collectInfo\<close>

record flow_info =
  Read :: "isl_union_map option"
  Write :: "isl_union_map option"
  MayWrite :: "isl_union_map option"
  Schedule :: "isl_union_map option"

text \<open>The body of the inner loop, over the memory accesses of one statement.\<close>

definition collectAccess :: "ScopStmt \<Rightarrow> MemoryAccess \<Rightarrow> flow_info \<Rightarrow> flow_info" where
  "collectAccess Stmt MI I =
     (let domcp = getDomain Stmt;
          accdom = getAccessRelation MI;
          accdom = isl_map_intersect_domain accdom domcp
      in if isRead MI
         then I\<lparr>Read := ptr_bind2 isl_union_map_add_map (Read I) accdom\<rparr>
         else I\<lparr>Write := ptr_bind2 isl_union_map_add_map (Write I) accdom\<rparr>)"

text \<open>The body of the outer loop, over the statements.\<close>

definition collectStmt :: "ScopStmt \<Rightarrow> flow_info \<Rightarrow> flow_info" where
  "collectStmt Stmt I =
     (let I = fold (collectAccess Stmt) (memaccs Stmt) I
      in I\<lparr>Schedule :=
             ptr_bind2 isl_union_map_add_map (Schedule I) (Some (getScattering Stmt))\<rparr>)"

definition collectInfo :: "Scop \<Rightarrow> flow_info" where
  "collectInfo S =
     (let Space = getParamSpace S
      in fold collectStmt (stmts S)
           \<lparr>Read = Some (isl_union_map_empty Space),
            Write = Some (isl_union_map_empty Space),
            MayWrite = Some (isl_union_map_empty Space),
            Schedule = Some (isl_union_map_empty Space)\<rparr>)"

subsection \<open>calculateDependences, runOnScop, releaseMemory\<close>

text \<open>
  An assignment through a pointer that still holds a relation loses that relation:
  \<open>held\<close> counts it.
\<close>

definition held :: "isl_union_map option \<Rightarrow> nat" where
  "held p = (case p of None \<Rightarrow> 0 | Some u \<Rightarrow> 1)"

definition calculateDependences :: "compute_flow \<Rightarrow> Scop \<Rightarrow> Dependences \<Rightarrow> Dependences" where
  "calculateDependences flow S D =
     (let I = collectInfo S;
          f1 = isl_union_map_compute_flow flow (Read I) (Write I) (MayWrite I) (Schedule I);
          D = D\<lparr>unreleased := unreleased D + held (RAW D),
                flow_calls := flow_calls D + 1,
                RAW := must_dep f1\<rparr>;
          f2 = isl_union_map_compute_flow flow (Write I) (Write I) (Read I) (Schedule I);
          D = D\<lparr>unreleased := unreleased D + held (WAW D) + held (WAR D),
                flow_calls := flow_calls D + 1,
                WAW := must_dep f2, WAR := may_dep f2\<rparr>;
          D = D\<lparr>RAW := ptr1 isl_union_map_coalesce (RAW D)\<rparr>;
          D = D\<lparr>WAW := ptr1 isl_union_map_coalesce (WAW D)\<rparr>;
          D = D\<lparr>WAR := ptr1 isl_union_map_coalesce (WAR D)\<rparr>
      in D)"

text \<open>\<^verbatim>\<open>releaseMemory\<close> frees the three relations and clears the pointers.\<close>

definition releaseMemory :: "Dependences \<Rightarrow> Dependences" where
  "releaseMemory D = D\<lparr>RAW := None, WAR := None, WAW := None\<rparr>"

text \<open>\<^verbatim>\<open>runOnScop\<close> returns \<^verbatim>\<open>false\<close> (the scop is not modified) for every scop; the
  model returns the pass.\<close>

definition runOnScop :: "compute_flow \<Rightarrow> Scop \<Rightarrow> Dependences \<Rightarrow> Dependences" where
  "runOnScop flow S D = calculateDependences flow S (releaseMemory D)"

subsection \<open>getDependences\<close>

definition getDependences :: "Dependences \<Rightarrow> 32 word \<Rightarrow> isl_union_map option" where
  "getDependences D Kinds =
     (let Space = ptr1 isl_union_map_get_space (RAW D);
          Deps = ptr1 isl_union_map_empty Space;
          Deps = (if Kinds AND TYPE_RAW \<noteq> 0 then ptr2 isl_union_map_union Deps (RAW D) else Deps);
          Deps = (if Kinds AND TYPE_WAR \<noteq> 0 then ptr2 isl_union_map_union Deps (WAR D) else Deps);
          Deps = (if Kinds AND TYPE_WAW \<noteq> 0 then ptr2 isl_union_map_union Deps (WAW D) else Deps);
          Deps = ptr1 isl_union_map_coalesce Deps;
          Deps = ptr1 isl_union_map_detect_equalities Deps
      in Deps)"

subsection \<open>isValidScattering\<close>

text \<open>The body of the loop over the statements: the scattering of the statement, the
  space of the first one, the union of all.\<close>

definition StmtScat :: "StatementToIslMapTy \<Rightarrow> ScopStmt \<Rightarrow> isl_map" where
  "StmtScat NewScattering Stmt =
     (case NewScattering (stmt_id Stmt) of
        None \<Rightarrow> getScattering Stmt
      | Some m \<Rightarrow> m)"

definition addStmtScat ::
  "StatementToIslMapTy \<Rightarrow> ScopStmt \<Rightarrow> isl_space option \<times> isl_union_map option
     \<Rightarrow> isl_space option \<times> isl_union_map option" where
  "addStmtScat NewScattering Stmt st =
     (let ScatteringSpace = fst st;
          Scattering = snd st;
          ScatteringSpace =
            (case ScatteringSpace of
               None \<Rightarrow> Some (isl_space_range (isl_map_get_space (StmtScat NewScattering Stmt)))
             | Some sp \<Rightarrow> Some sp)
      in (ScatteringSpace,
          ptr_bind2 isl_union_map_add_map Scattering (Some (StmtScat NewScattering Stmt))))"

text \<open>The loop \<^verbatim>\<open>for (i = 0; i < n; i++) s = isl_set_fix_si(s, isl_dim_set, i, 0)\<close>.\<close>

definition fix_all :: "nat \<Rightarrow> isl_set option \<Rightarrow> isl_set option" where
  "fix_all n s = fold (\<lambda>i. ptr_bind (isl_set_fix_si i 0)) [0..<n] s"

definition isValidScattering ::
  "bool \<Rightarrow> Dependences \<Rightarrow> Scop \<Rightarrow> StatementToIslMapTy \<Rightarrow> bool" where
  "isValidScattering LegalityCheckDisabled D S NewScattering =
     (if LegalityCheckDisabled then True
      else
        let Dependences = getDependences D TYPE_ALL;
            Space = getParamSpace S;
            st = fold (addStmtScat NewScattering) (stmts S)
                   (None, Some (isl_union_map_empty Space));
            ScatteringSpace = fst st;
            Scattering = snd st;
            Dependences = ptr2 isl_union_map_apply_domain Dependences Scattering;
            Dependences = ptr2 isl_union_map_apply_range Dependences Scattering;
            Zero = ptr_bind isl_set_universe ScatteringSpace;
            Zero = fix_all (isl_set_dim Zero) Zero;
            UDeltas = ptr1 isl_union_map_deltas Dependences;
            Deltas = ptr_bind2 isl_union_set_extract_set UDeltas ScatteringSpace;
            NonPositive = ptr2 isl_set_lex_le_set Deltas Zero;
            IsValid = to_bool (isl_map_is_empty NonPositive)
        in IsValid)"

subsection \<open>isParallelDimension\<close>

text \<open>
  Subtraction of \<^verbatim>\<open>unsigned\<close> values wraps around. The source ends by freeing
  \<^verbatim>\<open>Invalid\<close> under a misspelt name; releasing the set has no part in the result.
\<close>

definition unsigned_sub :: "nat \<Rightarrow> nat \<Rightarrow> nat" where
  "unsigned_sub a b = nat ((int a - int b) mod 2 ^ 32)"

definition getCombinedScheduleForSpace :: "Scop \<Rightarrow> nat \<Rightarrow> isl_union_map option" where
  "getCombinedScheduleForSpace scop dimLevel =
     (let Space = getParamSpace scop;
          schedule = Some (isl_union_map_empty Space)
      in fold (\<lambda>Stmt schedule.
                 let remainingDimensions = unsigned_sub (getNumScattering Stmt) dimLevel;
                     Scattering = isl_map_project_out (getScattering Stmt) dimLevel
                                    remainingDimensions
                 in ptr_bind2 isl_union_map_add_map schedule Scattering)
           (stmts scop) schedule)"

definition isParallelDimension :: "Dependences \<Rightarrow> Scop \<Rightarrow> isl_set \<Rightarrow> nat \<Rightarrow> bool" where
  "isParallelDimension D S Dom ParallelDim =
     (let Schedule = getCombinedScheduleForSpace S ParallelDim;
          Deps = getDependences D TYPE_ALL;
          ScheduleSubset = Some (isl_union_set_from_set Dom);
          Deps = ptr2 isl_union_map_apply_range Deps Schedule;
          Deps = ptr2 isl_union_map_apply_domain Deps Schedule;
          Deps = ptr2 isl_union_map_intersect_domain Deps ScheduleSubset;
          Deps = ptr2 isl_union_map_intersect_range Deps ScheduleSubset;
          Distance = ptr1 isl_union_map_deltas Deps;
          Space = isl_space_set_alloc 0 ParallelDim;
          AllZero = isl_set_universe Space;
          Dimensions = isl_space_dim Space;
          AllZero = fix_all Dimensions AllZero;
          AllZero = ptr_bind (isl_set_align_params (getParamSpace S)) AllZero;
          LastUnknown = isl_set_universe Space;
          LastUnknown = fix_all (unsigned_sub Dimensions 1) LastUnknown;
          LastUnknown = ptr_bind (isl_set_align_params (getParamSpace S)) LastUnknown;
          ValidDistances = ptr2 isl_set_subtract LastUnknown AllZero;
          ValidDistances = ptr1 isl_set_complement ValidDistances;
          ValidDistancesUS = ptr1 isl_union_set_from_set ValidDistances;
          Invalid = ptr2 isl_union_set_subtract Distance ValidDistancesUS;
          IsParallel = to_bool (isl_union_set_is_empty Invalid)
      in IsParallel)"

text \<open>
  \<^verbatim>\<open>isParallelFor\<close> tests the loop of a \<^verbatim>\<open>clast_for\<close> at the depth of its domain;
  the domain arrives converted from the code generator's.
\<close>

definition isParallelFor :: "Dependences \<Rightarrow> Scop \<Rightarrow> isl_set \<Rightarrow> bool" where
  "isParallelFor D S Dom = isParallelDimension D S Dom (snd (set_tuple Dom))"

subsection \<open>The pass as seen by its clients\<close>

text \<open>
  A client computes (\<^verbatim>\<open>runOnScop\<close>), invalidates (\<^verbatim>\<open>releaseMemory\<close>) or queries.
  The queries read \<open>RAW\<close>, \<open>WAR\<close> and \<open>WAW\<close> and assign none of them.
\<close>

datatype request =
    Compute Scop
  | Invalidate
  | QueryDependences "32 word"
  | QueryValidScattering Scop StatementToIslMapTy
  | QueryParallelDimension Scop isl_set nat

fun serve :: "compute_flow \<Rightarrow> request \<Rightarrow> Dependences \<Rightarrow> Dependences" where
  "serve flow (Compute S) D = runOnScop flow S D"
| "serve flow Invalidate D = releaseMemory D"
| "serve flow (QueryDependences Kinds) D = D"
| "serve flow (QueryValidScattering S NewScattering) D = D"
| "serve flow (QueryParallelDimension S Dom ParallelDim) D = D"

fun is_query :: "request \<Rightarrow> bool" where
  "is_query (Compute S) = False"
| "is_query Invalidate = False"
| "is_query (QueryDependences Kinds) = True"
| "is_query (QueryValidScattering S NewScattering) = True"
| "is_query (QueryParallelDimension S Dom ParallelDim) = True"

section \<open>What the claims speak of\<close>

text \<open>The cache is computed when all three relations are present, and consistent when
  all three are present or none is.\<close>

definition computed :: "Dependences \<Rightarrow> bool" where
  "computed D = (RAW D \<noteq> None \<and> WAR D \<noteq> None \<and> WAW D \<noteq> None)"


text \<open>The pairs of a relation that may be absent, the pairs of a cached relation that a
  mask selects, and all cached pairs.\<close>

definition pairs_of :: "isl_union_map option \<Rightarrow> (point \<times> point) set" where
  "pairs_of u = (case u of Some x \<Rightarrow> umap_pairs x | None \<Rightarrow> {})"

definition selected :: "bool \<Rightarrow> isl_union_map option \<Rightarrow> (point \<times> point) set" where
  "selected b u = (case u of Some x \<Rightarrow> if b then umap_pairs x else {} | None \<Rightarrow> {})"

definition requested :: "32 word \<Rightarrow> Dependences \<Rightarrow> (point \<times> point) set" where
  "requested Kinds D =
     selected (Kinds AND TYPE_RAW \<noteq> 0) (RAW D) \<union>
     selected (Kinds AND TYPE_WAR \<noteq> 0) (WAR D) \<union>
     selected (Kinds AND TYPE_WAW \<noteq> 0) (WAW D)"

definition all_deps :: "Dependences \<Rightarrow> (point \<times> point) set" where
  "all_deps D = selected True (RAW D) \<union> selected True (WAR D) \<union> selected True (WAW D)"

text \<open>The access relation of an access, restricted to the iteration domain of its
  statement, and the union of these over the accesses of a given kind.\<close>

definition acc_pairs :: "ScopStmt \<Rightarrow> MemoryAccess \<Rightarrow> (point \<times> point) set" where
  "acc_pairs x m = {(p, q) \<in> map_pairs (getAccessRelation m). p \<in> set_points (getDomain x)}"

definition accesses_of :: "(MemoryAccess \<Rightarrow> bool) \<Rightarrow> ScopStmt list \<Rightarrow> (point \<times> point) set" where
  "accesses_of P xs = (\<Union>x \<in> set xs. \<Union>m \<in> {m \<in> set (memaccs x). P m}. acc_pairs x m)"

text \<open>The schedule completed from a candidate: per statement the override, else the
  current schedule.\<close>

definition scatterings_of :: "StatementToIslMapTy \<Rightarrow> ScopStmt list \<Rightarrow> (point \<times> point) set" where
  "scatterings_of N xs = (\<Union>x \<in> set xs. map_pairs (StmtScat N x))"

text \<open>The pairs (source time, target time) of the dependences under a schedule, and
  their deltas under the completed schedule.\<close>

definition time_pairs ::
  "(point \<times> point) set \<Rightarrow> (point \<times> point) set \<Rightarrow> (point \<times> point) set" where
  "time_pairs deps sched =
     {(ta, tb). \<exists>a b. (a, b) \<in> deps \<and> (a, ta) \<in> sched \<and> (b, tb) \<in> sched}"

definition time_deltas :: "Dependences \<Rightarrow> Scop \<Rightarrow> StatementToIslMapTy \<Rightarrow> int list set" where
  "time_deltas D S N =
     (\<lambda>(ta, tb). vec_sub (coords tb) (coords ta)) `
       time_pairs (all_deps D) (scatterings_of N (stmts S))"

text \<open>The deltas that lie in the time space of the schedule of the first statement:
  those of the pairs whose source and target time both lie in it.\<close>

definition first_space_deltas ::
  "Dependences \<Rightarrow> Scop \<Rightarrow> StatementToIslMapTy \<Rightarrow> int list set" where
  "first_space_deltas D S N =
     (case stmts S of
        [] \<Rightarrow> {}
      | x # _ \<Rightarrow>
          (\<lambda>(ta, tb). vec_sub (coords tb) (coords ta)) `
            {(ta, tb) \<in> time_pairs (all_deps D) (scatterings_of N (stmts S)).
               space_of ta = map_out (StmtScat N x) \<and> space_of tb = map_out (StmtScat N x)})"

text \<open>A vector is lexicographically non-positive when it is zero or its first nonzero
  coordinate is negative.\<close>

definition lex_nonpositive :: "int list \<Rightarrow> bool" where
  "lex_nonpositive d = (case dropWhile (\<lambda>x. x = 0) d of [] \<Rightarrow> True | x # _ \<Rightarrow> x < 0)"

text \<open>All time vectors of the completed schedule lie in one time space, that of the
  schedule of the first statement.\<close>

definition uniform_time :: "Scop \<Rightarrow> StatementToIslMapTy \<Rightarrow> bool" where
  "uniform_time S N =
     (\<forall>x \<in> set (stmts S). \<forall>(p, q) \<in> map_pairs (StmtScat N x).
        space_of q = map_out (StmtScat N (hd (stmts S))))"

text \<open>Every parameter has a name: of the scop and of the completed schedule, of a union
  relation that is present, of the scop and all relations of its statements, of the cached
  relations.\<close>

definition named_schedules :: "Scop \<Rightarrow> StatementToIslMapTy \<Rightarrow> bool" where
  "named_schedules S N =
     (has_named_params (space_params (getParamSpace S)) \<and>
      (\<forall>x \<in> set (stmts S). has_named_params (map_params (StmtScat N x))))"

definition named_union :: "isl_union_map option \<Rightarrow> bool" where
  "named_union p = (\<exists>u. p = Some u \<and> has_named_params (umap_params u))"

definition named_scop :: "Scop \<Rightarrow> bool" where
  "named_scop S =
     (has_named_params (space_params (getParamSpace S)) \<and>
      (\<forall>x \<in> set (stmts S).
         has_named_params (set_params (getDomain x)) \<and>
         has_named_params (map_params (getScattering x)) \<and>
         (\<forall>m \<in> set (memaccs x). has_named_params (map_params (getAccessRelation m)))))"

definition named_cache :: "Dependences \<Rightarrow> bool" where
  "named_cache D =
     (\<forall>u \<in> set_option (RAW D) \<union> set_option (WAR D) \<union> set_option (WAW D).
        has_named_params (umap_params u))"

text \<open>
  The schedule truncated to its first \<open>depth\<close> coordinates, in the time space without a
  name, and the deltas of the dependences whose truncated source and target times both lie
  in the tested set \<open>Dom\<close>.
\<close>

definition truncated :: "nat \<Rightarrow> ScopStmt list \<Rightarrow> (point \<times> point) set" where
  "truncated depth xs =
     (\<Union>x \<in> set xs.
        (\<lambda>(p, q). (p, Pt (pv q) [] (take depth (coords q)))) ` map_pairs (getScattering x))"

definition depth_deltas :: "Dependences \<Rightarrow> Scop \<Rightarrow> isl_set \<Rightarrow> nat \<Rightarrow> int list set" where
  "depth_deltas D S Dom depth =
     (\<lambda>(ta, tb). vec_sub (coords tb) (coords ta)) `
       {(ta, tb) \<in> time_pairs (all_deps D) (truncated depth (stmts S)).
          ta \<in> set_points Dom \<and> tb \<in> set_points Dom}"

text \<open>
  The same deltas when the tested set is read as a set of statement instances, a subset of
  the iteration domains: the deltas of the dependences whose source and target instances
  both lie in \<open>Dom\<close>.
\<close>

definition instance_deltas :: "Dependences \<Rightarrow> Scop \<Rightarrow> isl_set \<Rightarrow> nat \<Rightarrow> int list set" where
  "instance_deltas D S Dom depth =
     (\<lambda>(ta, tb). vec_sub (coords tb) (coords ta)) `
       time_pairs {(a, b) \<in> all_deps D. a \<in> set_points Dom \<and> b \<in> set_points Dom}
         (truncated depth (stmts S))"

text \<open>The time vectors of a statement have as many coordinates as its schedule declares,
  a number that fits \<^verbatim>\<open>unsigned\<close>, and at least \<open>depth\<close>.\<close>

definition wf_scattering :: "ScopStmt \<Rightarrow> bool" where
  "wf_scattering x =
     (\<forall>(p, q) \<in> map_pairs (getScattering x). length (coords q) = getNumScattering x)"

definition deep_enough :: "nat \<Rightarrow> Scop \<Rightarrow> bool" where
  "deep_enough depth S =
     (\<forall>x \<in> set (stmts S).
        wf_scattering x \<and> depth \<le> getNumScattering x \<and> getNumScattering x < 2 ^ 32)"

text \<open>The pattern ``all coordinates zero except possibly the last'', and a delta carried
  by the last coordinate: of that pattern, with the last coordinate nonzero.\<close>

definition zero_but_last :: "int list \<Rightarrow> bool" where
  "zero_but_last d = list_all (\<lambda>x. x = 0) (butlast d)"

definition carried_by_last :: "int list \<Rightarrow> bool" where
  "carried_by_last d = (zero_but_last d \<and> d \<noteq> [] \<and> last d \<noteq> 0)"

text \<open>
  A relation cannot be added to a union relation over the parameters \<open>P\<close> when it is null,
  or when it is not empty, is written over other parameters, and it or \<open>P\<close> has a parameter
  without a name. The parameter spaces of a scop are mismatched when that holds, for the
  parameter space of the scop, of the schedule of a statement or of one of its access
  relations restricted to the iteration domain (null when the engine cannot align the access
  relation with the domain).
\<close>

definition unaligned :: "string list \<Rightarrow> isl_map option \<Rightarrow> bool" where
  "unaligned P a =
     (case a of
        None \<Rightarrow> True
      | Some m \<Rightarrow> map_pairs m \<noteq> {} \<and> align_params P (map_params m) = None)"

definition space_mismatch :: "Scop \<Rightarrow> bool" where
  "space_mismatch S =
     (\<exists>x \<in> set (stmts S).
        unaligned (space_params (getParamSpace S)) (Some (getScattering x)) \<or>
        (\<exists>m \<in> set (memaccs x).
           unaligned (space_params (getParamSpace S))
             (isl_map_intersect_domain (getAccessRelation m) (getDomain x))))"

text \<open>A union relation that is present agrees with a parameter list when it is written
  over that list, or when both have named parameters only.\<close>

definition agrees_with :: "string list \<Rightarrow> isl_union_map option \<Rightarrow> bool" where
  "agrees_with P p =
     (\<forall>u. p = Some u \<longrightarrow>
        umap_params u = P \<or> (has_named_params P \<and> has_named_params (umap_params u)))"

text \<open>The two invocations of the dataflow primitive in \<^verbatim>\<open>calculateDependences\<close>, and
  what they can deliver: all three relations asked for, or none of them.\<close>

definition first_flow :: "compute_flow \<Rightarrow> Scop \<Rightarrow> flow_result" where
  "first_flow flow S =
     isl_union_map_compute_flow flow (Read (collectInfo S)) (Write (collectInfo S))
       (MayWrite (collectInfo S)) (Schedule (collectInfo S))"

definition second_flow :: "compute_flow \<Rightarrow> Scop \<Rightarrow> flow_result" where
  "second_flow flow S =
     isl_union_map_compute_flow flow (Write (collectInfo S)) (Write (collectInfo S))
       (Read (collectInfo S)) (Schedule (collectInfo S))"




subsection \<open>A reference dataflow primitive\<close>

text \<open>
  Modelled from the spec: the engine's dataflow primitive is not among the sources. For
  every sink instance and location, the must-dependences relate the sink to the last
  must-source that accesses the location before it, when no may-source accesses the
  location in between; the may-dependences relate it to every may-source that accesses the
  location before it with no must-source in between, and to that last must-source when a
  may-source comes in between. ``Before'' is the lexicographic order of the schedule. The
  primitive fails where the parameters of its operands cannot be aligned.
\<close>

definition scheduled_before :: "isl_union_map \<Rightarrow> point \<Rightarrow> point \<Rightarrow> bool" where
  "scheduled_before sched a b =
     (\<exists>ta tb. (a, ta) \<in> umap_pairs sched \<and> (b, tb) \<in> umap_pairs sched \<and>
        space_of ta = space_of tb \<and> lex_lt (coords ta) (coords tb))"

definition accessed_between ::
  "isl_union_map \<Rightarrow> isl_union_map \<Rightarrow> point \<Rightarrow> point \<Rightarrow> point \<Rightarrow> bool" where
  "accessed_between source sched l a b =
     (\<exists>c. (c, l) \<in> umap_pairs source \<and> scheduled_before sched a c \<and>
          scheduled_before sched c b)"

definition must_pairs ::
  "isl_union_map \<Rightarrow> isl_union_map \<Rightarrow> isl_union_map \<Rightarrow> isl_union_map \<Rightarrow> (point \<times> point) set" where
  "must_pairs sink must may sched =
     {(a, b). \<exists>l. (b, l) \<in> umap_pairs sink \<and> (a, l) \<in> umap_pairs must \<and>
        scheduled_before sched a b \<and>
        \<not> accessed_between must sched l a b \<and> \<not> accessed_between may sched l a b}"

definition may_pairs ::
  "isl_union_map \<Rightarrow> isl_union_map \<Rightarrow> isl_union_map \<Rightarrow> isl_union_map \<Rightarrow> (point \<times> point) set" where
  "may_pairs sink must may sched =
     {(a, b). \<exists>l. (b, l) \<in> umap_pairs sink \<and> scheduled_before sched a b \<and>
        \<not> accessed_between must sched l a b \<and>
        ((a, l) \<in> umap_pairs may \<or>
         ((a, l) \<in> umap_pairs must \<and> accessed_between may sched l a b))}"

definition flow_params ::
  "isl_union_map \<Rightarrow> isl_union_map \<Rightarrow> isl_union_map \<Rightarrow> isl_union_map \<Rightarrow> string list option" where
  "flow_params sink must may sched =
     ptr_bind (\<lambda>ps. align_params ps (umap_params sched))
       (ptr_bind (\<lambda>ps. align_params ps (umap_params may))
          (align_params (umap_params sink) (umap_params must)))"

definition isl_flow :: compute_flow where
  "isl_flow sink must may sched =
     (case flow_params sink must may sched of
        None \<Rightarrow> \<lparr>must_dep = None, may_dep = None\<rparr>
      | Some ps \<Rightarrow>
          \<lparr>must_dep = Some \<lparr>umap_params = ps, umap_pairs = must_pairs sink must may sched\<rparr>,
           may_dep = Some \<lparr>umap_params = ps, umap_pairs = may_pairs sink must may sched\<rparr>\<rparr>)"


text \<open>What the analysis relies on: the primitive relates a source to a sink only if the
  schedule runs the source before the sink.\<close>

definition flow_in_order :: "compute_flow \<Rightarrow> bool" where
  "flow_in_order flow =
     (\<forall>sink must may sched a b.
        (a, b) \<in> pairs_of (must_dep (flow sink must may sched)) \<union>
                 pairs_of (may_dep (flow sink must may sched))
        \<longrightarrow> scheduled_before sched a b)"

definition single_valued_schedule :: "Scop \<Rightarrow> bool" where
  "single_valued_schedule S =
     (\<forall>p t t'. (p, t) \<in> scatterings_of Map.empty (stmts S) \<longrightarrow>
        (p, t') \<in> scatterings_of Map.empty (stmts S) \<longrightarrow> t = t')"

section \<open>Example scops\<close>

text \<open>
  The recurrence \<^verbatim>\<open>for (i = 0; i < N; i++) A[i] = f(A[i-1])\<close>: one statement
  \<open>S[i]\<close> that reads \<open>A[i-1]\<close> and writes \<open>A[i]\<close>, scheduled at time \<open>[i]\<close>; the
  candidate schedule that reverses the loop, \<open>S[i] \<rightarrow> [N-1-i]\<close>; the loop as a set of
  time points for the parallelism test. \<open>at_N n\<close> is a valuation with \<open>N = n\<close>.
\<close>

definition at_N :: "int \<Rightarrow> valuation" where
  "at_N n = (\<lambda>x. n)"

definition rec_params :: "string list" where
  "rec_params = [''N'']"

definition rec_domain :: isl_set where
  "rec_domain = \<lparr>set_params = rec_params, set_tuple = (''S'', 1),
     set_points = {p. \<exists>e i. p = Pt e ''S'' [i] \<and> 0 \<le> i \<and> i < e ''N''}\<rparr>"

definition rec_read :: isl_map where
  "rec_read = \<lparr>map_params = rec_params, map_in = (''S'', 1), map_out = (''A'', 1),
     map_pairs = {(p, q). \<exists>e i. p = Pt e ''S'' [i] \<and> q = Pt e ''A'' [i - 1]}\<rparr>"

definition rec_write :: isl_map where
  "rec_write = \<lparr>map_params = rec_params, map_in = (''S'', 1), map_out = (''A'', 1),
     map_pairs = {(p, q). \<exists>e i. p = Pt e ''S'' [i] \<and> q = Pt e ''A'' [i]}\<rparr>"

definition rec_sched :: isl_map where
  "rec_sched = \<lparr>map_params = rec_params, map_in = (''S'', 1), map_out = (''scattering'', 1),
     map_pairs = {(p, q). \<exists>e i. p = Pt e ''S'' [i] \<and> q = Pt e ''scattering'' [i]}\<rparr>"

definition rec_stmt :: ScopStmt where
  "rec_stmt = \<lparr>stmt_id = 0, getDomain = rec_domain,
     memaccs = [\<lparr>getKind = ReadAccess, getAccessRelation = rec_read\<rparr>,
                \<lparr>getKind = MustWriteAccess, getAccessRelation = rec_write\<rparr>],
     getScattering = rec_sched\<rparr>"

definition rec_scop :: Scop where
  "rec_scop = \<lparr>getParamSpace = \<lparr>space_params = rec_params, space_tuples = []\<rparr>,
     stmts = [rec_stmt]\<rparr>"

definition rec_reversed :: StatementToIslMapTy where
  "rec_reversed = [0 \<mapsto> \<lparr>map_params = rec_params, map_in = (''S'', 1),
     map_out = (''scattering'', 1),
     map_pairs = {(p, q). \<exists>e i. p = Pt e ''S'' [i] \<and>
                            q = Pt e ''scattering'' [e ''N'' - 1 - i]}\<rparr>]"

definition rec_loop :: isl_set where
  "rec_loop = \<lparr>set_params = rec_params, set_tuple = ([], 1),
     set_points = {p. \<exists>e i. p = Pt e [] [i] \<and> 0 \<le> i \<and> i < e ''N''}\<rparr>"

text \<open>The same loop and the same reversal written over a parameter \<open>M\<close> of their own.\<close>

definition rec_loop_M :: isl_set where
  "rec_loop_M = \<lparr>set_params = [''M''], set_tuple = ([], 1),
     set_points = {p. \<exists>e i. p = Pt e [] [i] \<and> 0 \<le> i \<and> i < e ''M''}\<rparr>"

definition rec_reversed_M :: StatementToIslMapTy where
  "rec_reversed_M = [0 \<mapsto> \<lparr>map_params = [''M''], map_in = (''S'', 1),
     map_out = (''scattering'', 1),
     map_pairs = {(p, q). \<exists>e i. p = Pt e ''S'' [i] \<and>
                            q = Pt e ''scattering'' [e ''M'' - 1 - i]}\<rparr>]"

definition rec_deps :: Dependences where
  "rec_deps = runOnScop isl_flow rec_scop Dependences_new"

text \<open>A third candidate runs every instance at time \<open>[0]\<close>.\<close>

definition rec_constant :: StatementToIslMapTy where
  "rec_constant = [0 \<mapsto> \<lparr>map_params = rec_params, map_in = (''S'', 1),
     map_out = (''scattering'', 1),
     map_pairs = {(p, q). \<exists>e i. p = Pt e ''S'' [i] \<and> q = Pt e ''scattering'' [0]}\<rparr>]"

text \<open>
  The recurrence after an initialisation \<^verbatim>\<open>B[0] = 0\<close>: the statement \<open>T[0]\<close>, scheduled
  at time \<open>[-1]\<close>, comes first in the scop. The candidate \<open>rec_elsewhere\<close> reverses the loop
  of \<open>S\<close> and maps it into a time space of another name.
\<close>

definition init_stmt :: ScopStmt where
  "init_stmt = \<lparr>stmt_id = 1,
     getDomain = \<lparr>set_params = rec_params, set_tuple = (''T'', 1),
       set_points = {p. \<exists>e. p = Pt e ''T'' [0]}\<rparr>,
     memaccs = [\<lparr>getKind = MustWriteAccess, getAccessRelation =
       \<lparr>map_params = rec_params, map_in = (''T'', 1), map_out = (''B'', 1),
        map_pairs = {(p, q). \<exists>e. p = Pt e ''T'' [0] \<and> q = Pt e ''B'' [0]}\<rparr>\<rparr>],
     getScattering = \<lparr>map_params = rec_params, map_in = (''T'', 1),
       map_out = (''scattering'', 1),
       map_pairs = {(p, q). \<exists>e. p = Pt e ''T'' [0] \<and> q = Pt e ''scattering'' [- 1]}\<rparr>\<rparr>"

definition two_scop :: Scop where
  "two_scop = \<lparr>getParamSpace = \<lparr>space_params = rec_params, space_tuples = []\<rparr>,
     stmts = [init_stmt, rec_stmt]\<rparr>"

definition rec_elsewhere :: StatementToIslMapTy where
  "rec_elsewhere = [0 \<mapsto> \<lparr>map_params = rec_params, map_in = (''S'', 1),
     map_out = (''reversed'', 1),
     map_pairs = {(p, q). \<exists>e i. p = Pt e ''S'' [i] \<and>
                            q = Pt e ''reversed'' [e ''N'' - 1 - i]}\<rparr>]"

definition two_deps :: Dependences where
  "two_deps = runOnScop isl_flow two_scop Dependences_new"

text \<open>
  The loop nest \<^verbatim>\<open>for (i..N) for (j..N) A[i][j] = f(A[i-1][j])\<close>: the dependences are
  carried by the outer loop, the inner loop is parallel.
\<close>

definition nest_domain :: isl_set where
  "nest_domain = \<lparr>set_params = rec_params, set_tuple = (''S'', 2),
     set_points = {p. \<exists>e i j. p = Pt e ''S'' [i, j] \<and> 0 \<le> i \<and> i < e ''N'' \<and>
                       0 \<le> j \<and> j < e ''N''}\<rparr>"

definition nest_read :: isl_map where
  "nest_read = \<lparr>map_params = rec_params, map_in = (''S'', 2), map_out = (''A'', 2),
     map_pairs = {(p, q). \<exists>e i j. p = Pt e ''S'' [i, j] \<and> q = Pt e ''A'' [i - 1, j]}\<rparr>"

definition nest_write :: isl_map where
  "nest_write = \<lparr>map_params = rec_params, map_in = (''S'', 2), map_out = (''A'', 2),
     map_pairs = {(p, q). \<exists>e i j. p = Pt e ''S'' [i, j] \<and> q = Pt e ''A'' [i, j]}\<rparr>"

definition nest_sched :: isl_map where
  "nest_sched = \<lparr>map_params = rec_params, map_in = (''S'', 2), map_out = (''scattering'', 2),
     map_pairs = {(p, q). \<exists>e i j. p = Pt e ''S'' [i, j] \<and> q = Pt e ''scattering'' [i, j]}\<rparr>"

definition nest_stmt :: ScopStmt where
  "nest_stmt = \<lparr>stmt_id = 0, getDomain = nest_domain,
     memaccs = [\<lparr>getKind = ReadAccess, getAccessRelation = nest_read\<rparr>,
                \<lparr>getKind = MustWriteAccess, getAccessRelation = nest_write\<rparr>],
     getScattering = nest_sched\<rparr>"

definition nest_scop :: Scop where
  "nest_scop = \<lparr>getParamSpace = \<lparr>space_params = rec_params, space_tuples = []\<rparr>,
     stmts = [nest_stmt]\<rparr>"

definition nest_loop :: isl_set where
  "nest_loop = \<lparr>set_params = rec_params, set_tuple = ([], 2),
     set_points = {p. \<exists>e i j. p = Pt e [] [i, j] \<and> 0 \<le> i \<and> i < e ''N'' \<and>
                       0 \<le> j \<and> j < e ''N''}\<rparr>"

definition nest_deps :: Dependences where
  "nest_deps = runOnScop isl_flow nest_scop Dependences_new"

text \<open>
  The recurrence with a conditional store, \<^verbatim>\<open>if (c) A[i] = f(A[i-1])\<close>: the write is a
  may-write.
\<close>

definition may_stmt :: ScopStmt where
  "may_stmt = \<lparr>stmt_id = 0, getDomain = rec_domain,
     memaccs = [\<lparr>getKind = ReadAccess, getAccessRelation = rec_read\<rparr>,
                \<lparr>getKind = MayWriteAccess, getAccessRelation = rec_write\<rparr>],
     getScattering = rec_sched\<rparr>"

definition may_scop :: Scop where
  "may_scop = \<lparr>getParamSpace = \<lparr>space_params = rec_params, space_tuples = []\<rparr>,
     stmts = [may_stmt]\<rparr>"

text \<open>The recurrence in a scop whose parameter space has one parameter without a name:
  the engine cannot align it with the relations of the statement.\<close>

definition unnamed_scop :: Scop where
  "unnamed_scop = \<lparr>getParamSpace = \<lparr>space_params = [[]], space_tuples = []\<rparr>,
     stmts = [rec_stmt]\<rparr>"

section \<open>Lemmas about the engine operations and the loops\<close>

lemma TYPE_ALL_bits:
  "TYPE_ALL AND TYPE_RAW \<noteq> 0" "TYPE_ALL AND TYPE_WAR \<noteq> 0" "TYPE_ALL AND TYPE_WAW \<noteq> 0"
  by (simp_all add: TYPE_ALL_def TYPE_RAW_def TYPE_WAR_def TYPE_WAW_def)

lemma getDependences_null: "RAW D = None \<Longrightarrow> getDependences D Kinds = None"
  by (simp add: getDependences_def ptr1_def ptr2_def Let_def)

lemma getDependences_pairs:
  assumes "RAW D = Some r" "WAR D = Some a" "WAW D = Some w"
  shows "\<exists>u. getDependences D Kinds = Some u \<and>
           umap_pairs u = requested Kinds D"
  using assms
  by (simp add: getDependences_def ptr1_def ptr2_def Let_def selected_def requested_def
      isl_union_map_union_def isl_union_map_empty_def isl_union_map_coalesce_def
      isl_union_map_detect_equalities_def)

lemma getDependences_none_selected:
  assumes "RAW D = Some r"
    and "Kinds AND TYPE_RAW = 0" "Kinds AND TYPE_WAR = 0" "Kinds AND TYPE_WAW = 0"
  shows "getDependences D Kinds = Some (isl_union_map_empty (isl_union_map_get_space r))"
  using assms
  by (simp add: getDependences_def ptr1_def ptr2_def Let_def
      isl_union_map_coalesce_def isl_union_map_detect_equalities_def)

lemma getDependences_all_null:
  "\<not> computed D \<Longrightarrow> getDependences D TYPE_ALL = None"
  using TYPE_ALL_bits
  by (auto simp: getDependences_def ptr1_def ptr2_def Let_def computed_def split: option.splits)

lemma merge_params_same [simp]: "merge_params ps ps = ps"
  by (simp add: merge_params_def)

lemma align_params_same [simp]: "align_params ps ps = Some ps"
  by (simp add: align_params_def)

lemma merge_named:
  "has_named_params a \<Longrightarrow> has_named_params b \<Longrightarrow> has_named_params (merge_params a b)"
  by (auto simp: has_named_params_def merge_params_def)

lemma align_named:
  "has_named_params a \<Longrightarrow> has_named_params b \<Longrightarrow> align_params a b = Some (merge_params a b)"
  by (simp add: align_params_def)

lemma align_unnamed:
  "\<not> has_named_params b \<Longrightarrow> a \<noteq> b \<Longrightarrow> align_params a b = None"
  "\<not> has_named_params a \<Longrightarrow> a \<noteq> b \<Longrightarrow> align_params a b = None"
  by (simp_all add: align_params_def)

lemma add_map_pairs:
  "isl_union_map_add_map u m = Some r \<Longrightarrow> umap_pairs r = umap_pairs u \<union> map_pairs m"
  by (auto simp: isl_union_map_add_map_def split: if_splits option.splits)

lemma add_map_named:
  assumes "has_named_params (umap_params u)" "has_named_params (map_params m)"
  shows "\<exists>r. isl_union_map_add_map u m = Some r \<and> has_named_params (umap_params r)"
  using assms by (simp add: isl_union_map_add_map_def align_named merge_named)

lemma add_map_same:
  "umap_params u = map_params m \<Longrightarrow>
   isl_union_map_add_map u m =
     Some \<lparr>umap_params = umap_params u, umap_pairs = umap_pairs u \<union> map_pairs m\<rparr>"
  by (simp add: isl_union_map_add_map_def)

lemma intersect_domain_pairs:
  "isl_map_intersect_domain m s = Some r \<Longrightarrow>
   map_pairs r = {(p, q) \<in> map_pairs m. p \<in> set_points s}"
  by (auto simp: isl_map_intersect_domain_def split: option.splits)

lemma intersect_domain_named:
  assumes "has_named_params (map_params m)" "has_named_params (set_params s)"
  shows "\<exists>r. isl_map_intersect_domain m s = Some r \<and> has_named_params (map_params r)"
  using assms by (simp add: isl_map_intersect_domain_def align_named merge_named)

lemma collectAccess_fields:
  "MayWrite (collectAccess x m I) = MayWrite I"
  "Schedule (collectAccess x m I) = Schedule I"
  "isRead m \<Longrightarrow> Write (collectAccess x m I) = Write I"
  "\<not> isRead m \<Longrightarrow> Read (collectAccess x m I) = Read I"
  by (simp_all add: collectAccess_def Let_def)

lemma collectAccess_Read:
  assumes "isRead m" "Read (collectAccess x m I) = Some r"
  shows "\<exists>r0. Read I = Some r0 \<and> umap_pairs r = umap_pairs r0 \<union> acc_pairs x m"
  using assms
  by (auto simp: collectAccess_def Let_def ptr_bind2_def acc_pairs_def
      dest!: add_map_pairs intersect_domain_pairs split: option.splits)

lemma collectAccess_Write:
  assumes "\<not> isRead m" "Write (collectAccess x m I) = Some r"
  shows "\<exists>r0. Write I = Some r0 \<and> umap_pairs r = umap_pairs r0 \<union> acc_pairs x m"
  using assms
  by (auto simp: collectAccess_def Let_def ptr_bind2_def acc_pairs_def
      dest!: add_map_pairs intersect_domain_pairs split: option.splits)

lemma fold_collectAccess_fields:
  "MayWrite (fold (collectAccess x) ms I) = MayWrite I"
  "Schedule (fold (collectAccess x) ms I) = Schedule I"
  by (induction ms arbitrary: I) (simp_all add: collectAccess_fields)

lemma fold_collectAccess_Read:
  "Read (fold (collectAccess x) ms I) = Some r \<Longrightarrow>
   \<exists>r0. Read I = Some r0 \<and>
     umap_pairs r = umap_pairs r0 \<union> (\<Union>m \<in> {m \<in> set ms. isRead m}. acc_pairs x m)"
proof (induction ms arbitrary: I)
  case Nil
  then show ?case by simp
next
  case (Cons m ms)
  from Cons.prems have "Read (fold (collectAccess x) ms (collectAccess x m I)) = Some r"
    by simp
  from Cons.IH [OF this] obtain r1 where
    r1: "Read (collectAccess x m I) = Some r1"
    "umap_pairs r = umap_pairs r1 \<union> (\<Union>m \<in> {m \<in> set ms. isRead m}. acc_pairs x m)"
    by blast
  show ?case
  proof (cases "isRead m")
    case True
    from collectAccess_Read [OF True r1(1)] show ?thesis
      using r1(2) True by auto
  next
    case False
    then show ?thesis using r1 by (auto simp: collectAccess_fields)
  qed
qed

lemma fold_collectAccess_Write:
  "Write (fold (collectAccess x) ms I) = Some r \<Longrightarrow>
   \<exists>r0. Write I = Some r0 \<and>
     umap_pairs r = umap_pairs r0 \<union> (\<Union>m \<in> {m \<in> set ms. \<not> isRead m}. acc_pairs x m)"
proof (induction ms arbitrary: I)
  case Nil
  then show ?case by simp
next
  case (Cons m ms)
  from Cons.prems have "Write (fold (collectAccess x) ms (collectAccess x m I)) = Some r"
    by simp
  from Cons.IH [OF this] obtain r1 where
    r1: "Write (collectAccess x m I) = Some r1"
    "umap_pairs r = umap_pairs r1 \<union> (\<Union>m \<in> {m \<in> set ms. \<not> isRead m}. acc_pairs x m)"
    by blast
  show ?case
  proof (cases "isRead m")
    case False
    from collectAccess_Write [OF False r1(1)] show ?thesis
      using r1(2) False by auto
  next
    case True
    then show ?thesis using r1 by (auto simp: collectAccess_fields)
  qed
qed

lemma collectStmt_fields:
  "Read (collectStmt x I) = Read (fold (collectAccess x) (memaccs x) I)"
  "Write (collectStmt x I) = Write (fold (collectAccess x) (memaccs x) I)"
  "MayWrite (collectStmt x I) = MayWrite I"
  "Schedule (collectStmt x I) =
     ptr_bind2 isl_union_map_add_map (Schedule I) (Some (getScattering x))"
  by (simp_all add: collectStmt_def Let_def fold_collectAccess_fields)

lemma fold_collectStmt_MayWrite: "MayWrite (fold collectStmt xs I) = MayWrite I"
  by (induction xs arbitrary: I) (simp_all add: collectStmt_fields)

lemma fold_collectStmt_Read:
  "Read (fold collectStmt xs I) = Some r \<Longrightarrow>
   \<exists>r0. Read I = Some r0 \<and> umap_pairs r = umap_pairs r0 \<union> accesses_of isRead xs"
proof (induction xs arbitrary: I)
  case Nil
  then show ?case by (simp add: accesses_of_def)
next
  case (Cons x xs)
  from Cons.prems have "Read (fold collectStmt xs (collectStmt x I)) = Some r" by simp
  from Cons.IH [OF this] obtain r1 where
    r1: "Read (collectStmt x I) = Some r1"
    "umap_pairs r = umap_pairs r1 \<union> accesses_of isRead xs"
    by blast
  from fold_collectAccess_Read [of x "memaccs x" I r1] r1(1) obtain r0 where
    "Read I = Some r0"
    "umap_pairs r1 = umap_pairs r0 \<union> (\<Union>m \<in> {m \<in> set (memaccs x). isRead m}. acc_pairs x m)"
    by (auto simp: collectStmt_fields)
  then show ?case using r1(2) by (auto simp: accesses_of_def)
qed

lemma fold_collectStmt_Write:
  "Write (fold collectStmt xs I) = Some r \<Longrightarrow>
   \<exists>r0. Write I = Some r0 \<and>
     umap_pairs r = umap_pairs r0 \<union> accesses_of (\<lambda>m. \<not> isRead m) xs"
proof (induction xs arbitrary: I)
  case Nil
  then show ?case by (simp add: accesses_of_def)
next
  case (Cons x xs)
  from Cons.prems have "Write (fold collectStmt xs (collectStmt x I)) = Some r" by simp
  from Cons.IH [OF this] obtain r1 where
    r1: "Write (collectStmt x I) = Some r1"
    "umap_pairs r = umap_pairs r1 \<union> accesses_of (\<lambda>m. \<not> isRead m) xs"
    by blast
  from fold_collectAccess_Write [of x "memaccs x" I r1] r1(1) obtain r0 where
    "Write I = Some r0"
    "umap_pairs r1 = umap_pairs r0 \<union>
       (\<Union>m \<in> {m \<in> set (memaccs x). \<not> isRead m}. acc_pairs x m)"
    by (auto simp: collectStmt_fields)
  then show ?case using r1(2) by (auto simp: accesses_of_def)
qed

lemma fold_collectStmt_Schedule:
  "Schedule (fold collectStmt xs I) = Some r \<Longrightarrow>
   \<exists>r0. Schedule I = Some r0 \<and>
     umap_pairs r = umap_pairs r0 \<union> scatterings_of Map.empty xs"
proof (induction xs arbitrary: I)
  case Nil
  then show ?case by (simp add: scatterings_of_def)
next
  case (Cons x xs)
  from Cons.prems have "Schedule (fold collectStmt xs (collectStmt x I)) = Some r" by simp
  from Cons.IH [OF this] obtain r1 where
    r1: "Schedule (collectStmt x I) = Some r1"
    "umap_pairs r = umap_pairs r1 \<union> scatterings_of Map.empty xs"
    by blast
  from r1(1) obtain r0 where r0: "Schedule I = Some r0"
    "isl_union_map_add_map r0 (getScattering x) = Some r1"
    by (auto simp: collectStmt_fields ptr_bind2_def split: option.splits)
  from add_map_pairs [OF r0(2)] show ?case
    using r0(1) r1(2) by (auto simp: scatterings_of_def StmtScat_def)
qed

lemma collectInfo_pairs:
  "Read (collectInfo S) = Some r \<Longrightarrow> umap_pairs r = accesses_of isRead (stmts S)"
  "Write (collectInfo S) = Some w \<Longrightarrow>
     umap_pairs w = accesses_of (\<lambda>m. \<not> isRead m) (stmts S)"
  "MayWrite (collectInfo S) = Some (isl_union_map_empty (getParamSpace S))"
  "Schedule (collectInfo S) = Some s \<Longrightarrow> umap_pairs s = scatterings_of Map.empty (stmts S)"
proof -
  show "Read (collectInfo S) = Some r \<Longrightarrow> umap_pairs r = accesses_of isRead (stmts S)"
    unfolding collectInfo_def Let_def
    by (drule fold_collectStmt_Read) (auto simp: isl_union_map_empty_def)
  show "Write (collectInfo S) = Some w \<Longrightarrow>
     umap_pairs w = accesses_of (\<lambda>m. \<not> isRead m) (stmts S)"
    unfolding collectInfo_def Let_def
    by (drule fold_collectStmt_Write) (auto simp: isl_union_map_empty_def)
  show "MayWrite (collectInfo S) = Some (isl_union_map_empty (getParamSpace S))"
    by (simp add: collectInfo_def Let_def fold_collectStmt_MayWrite)
  show "Schedule (collectInfo S) = Some s \<Longrightarrow>
     umap_pairs s = scatterings_of Map.empty (stmts S)"
    unfolding collectInfo_def Let_def
    by (drule fold_collectStmt_Schedule) (auto simp: isl_union_map_empty_def)
qed

lemma collectAccess_named:
  assumes "has_named_params (set_params (getDomain x))"
    and "has_named_params (map_params (getAccessRelation m))"
    and "named_union (Read I)" "named_union (Write I)"
  shows "named_union (Read (collectAccess x m I)) \<and> named_union (Write (collectAccess x m I))"
proof -
  from intersect_domain_named [OF assms(2) assms(1)] obtain a where
    a: "isl_map_intersect_domain (getAccessRelation m) (getDomain x) = Some a"
    "has_named_params (map_params a)" by blast
  from assms(3) obtain r where r: "Read I = Some r" "has_named_params (umap_params r)"
    by (auto simp: named_union_def)
  from assms(4) obtain w where w: "Write I = Some w" "has_named_params (umap_params w)"
    by (auto simp: named_union_def)
  from add_map_named [OF r(2) a(2)] add_map_named [OF w(2) a(2)]
  show ?thesis
    using assms(3,4)
    by (auto simp: collectAccess_def Let_def a r w ptr_bind2_def named_union_def)
qed

lemma fold_collectAccess_named:
  assumes "has_named_params (set_params (getDomain x))"
    and "\<forall>m \<in> set ms. has_named_params (map_params (getAccessRelation m))"
    and "named_union (Read I)" "named_union (Write I)"
  shows "named_union (Read (fold (collectAccess x) ms I)) \<and>
         named_union (Write (fold (collectAccess x) ms I))"
  using assms(2-)
proof (induction ms arbitrary: I)
  case Nil
  then show ?case by simp
next
  case (Cons m ms)
  from Cons.prems have m: "has_named_params (map_params (getAccessRelation m))"
    and ms: "\<forall>m \<in> set ms. has_named_params (map_params (getAccessRelation m))"
    by simp_all
  from collectAccess_named [OF assms(1) m Cons.prems(2,3)]
  have "named_union (Read (collectAccess x m I))" "named_union (Write (collectAccess x m I))"
    by simp_all
  from Cons.IH [OF ms this] show ?case by simp
qed

lemma collectStmt_named:
  assumes "has_named_params (set_params (getDomain x))"
    and "has_named_params (map_params (getScattering x))"
    and "\<forall>m \<in> set (memaccs x). has_named_params (map_params (getAccessRelation m))"
    and "named_union (Read I)" "named_union (Write I)" "named_union (Schedule I)"
  shows "named_union (Read (collectStmt x I)) \<and> named_union (Write (collectStmt x I)) \<and>
         named_union (Schedule (collectStmt x I))"
proof -
  from assms(6) obtain s where s: "Schedule I = Some s" "has_named_params (umap_params s)"
    by (auto simp: named_union_def)
  from add_map_named [OF s(2) assms(2)]
  have "named_union (Schedule (collectStmt x I))"
    by (auto simp: collectStmt_fields s ptr_bind2_def named_union_def)
  then show ?thesis
    using fold_collectAccess_named [OF assms(1) assms(3) assms(4) assms(5)]
    by (simp add: collectStmt_fields)
qed

lemma fold_collectStmt_named:
  assumes "\<forall>x \<in> set xs.
         has_named_params (set_params (getDomain x)) \<and>
         has_named_params (map_params (getScattering x)) \<and>
         (\<forall>m \<in> set (memaccs x). has_named_params (map_params (getAccessRelation m)))"
    and "named_union (Read I)" "named_union (Write I)" "named_union (Schedule I)"
  shows "named_union (Read (fold collectStmt xs I)) \<and>
         named_union (Write (fold collectStmt xs I)) \<and>
         named_union (Schedule (fold collectStmt xs I))"
  using assms
proof (induction xs arbitrary: I)
  case Nil
  then show ?case by simp
next
  case (Cons x xs)
  from Cons.prems(1) have x: "has_named_params (set_params (getDomain x))"
    "has_named_params (map_params (getScattering x))"
    "\<forall>m \<in> set (memaccs x). has_named_params (map_params (getAccessRelation m))"
    and xs: "\<forall>x \<in> set xs.
         has_named_params (set_params (getDomain x)) \<and>
         has_named_params (map_params (getScattering x)) \<and>
         (\<forall>m \<in> set (memaccs x). has_named_params (map_params (getAccessRelation m)))"
    by simp_all
  from collectStmt_named [OF x Cons.prems(2,3,4)]
  have "named_union (Read (collectStmt x I))" "named_union (Write (collectStmt x I))"
    "named_union (Schedule (collectStmt x I))" by simp_all
  from Cons.IH [OF xs this] show ?case by simp
qed

lemma collectInfo_named:
  assumes "named_scop S"
  shows "named_union (Read (collectInfo S))" "named_union (Write (collectInfo S))"
    "named_union (MayWrite (collectInfo S))" "named_union (Schedule (collectInfo S))"
proof -
  let ?e = "Some (isl_union_map_empty (getParamSpace S))"
  let ?I = "\<lparr>Read = ?e, Write = ?e, MayWrite = ?e, Schedule = ?e\<rparr>"
  have e: "named_union ?e"
    using assms by (simp add: named_union_def named_scop_def isl_union_map_empty_def)
  have "named_union (Read (fold collectStmt (stmts S) ?I)) \<and>
        named_union (Write (fold collectStmt (stmts S) ?I)) \<and>
        named_union (Schedule (fold collectStmt (stmts S) ?I))"
    by (rule fold_collectStmt_named) (use assms e in \<open>simp_all add: named_scop_def\<close>)
  then show "named_union (Read (collectInfo S))" "named_union (Write (collectInfo S))"
    "named_union (Schedule (collectInfo S))"
    by (simp_all add: collectInfo_def Let_def)
  show "named_union (MayWrite (collectInfo S))"
    using e by (simp add: collectInfo_pairs(3))
qed

lemma fold_addStmtScat_fst:
  "fst (fold (addStmtScat N) xs (sp, u)) =
     (case sp of Some s \<Rightarrow> Some s
      | None \<Rightarrow> (case xs of [] \<Rightarrow> None
                 | x # _ \<Rightarrow> Some (isl_space_range (isl_map_get_space (StmtScat N x)))))"
proof (induction xs arbitrary: sp u)
  case Nil
  show ?case by (simp split: option.splits)
next
  case (Cons x xs)
  show ?case
    using Cons.IH [of "fst (addStmtScat N x (sp, u))" "snd (addStmtScat N x (sp, u))"]
    by (cases sp) (auto simp: addStmtScat_def Let_def)
qed

lemma fold_addStmtScat_snd:
  "snd (fold (addStmtScat N) xs (sp, u)) = Some r \<Longrightarrow>
   \<exists>u0. u = Some u0 \<and> umap_pairs r = umap_pairs u0 \<union> scatterings_of N xs"
proof (induction xs arbitrary: sp u)
  case Nil
  then show ?case by (simp add: scatterings_of_def)
next
  case (Cons x xs)
  let ?st = "addStmtScat N x (sp, u)"
  from Cons.prems have "snd (fold (addStmtScat N) xs (fst ?st, snd ?st)) = Some r" by simp
  from Cons.IH [OF this] obtain u1 where
    u1: "snd ?st = Some u1" "umap_pairs r = umap_pairs u1 \<union> scatterings_of N xs" by blast
  from u1(1) obtain u0 where u0: "u = Some u0"
    "isl_union_map_add_map u0 (StmtScat N x) = Some u1"
    by (auto simp: addStmtScat_def Let_def ptr_bind2_def split: option.splits)
  from add_map_pairs [OF u0(2)] show ?case
    using u0(1) u1(2) by (auto simp: scatterings_of_def)
qed

lemma fold_addStmtScat_named:
  assumes "\<forall>x \<in> set xs. has_named_params (map_params (StmtScat N x))"
    and "named_union u"
  shows "named_union (snd (fold (addStmtScat N) xs (sp, u)))"
  using assms
proof (induction xs arbitrary: sp u)
  case Nil
  then show ?case by simp
next
  case (Cons x xs)
  let ?st = "addStmtScat N x (sp, u)"
  from Cons.prems(2) obtain u0 where u0: "u = Some u0" "has_named_params (umap_params u0)"
    by (auto simp: named_union_def)
  from Cons.prems(1) have x: "has_named_params (map_params (StmtScat N x))"
    and xs: "\<forall>x \<in> set xs. has_named_params (map_params (StmtScat N x))" by simp_all
  from add_map_named [OF u0(2) x] have "named_union (snd ?st)"
    by (auto simp: addStmtScat_def Let_def ptr_bind2_def u0 named_union_def)
  from Cons.IH [OF xs this, of "fst ?st"] show ?case by simp
qed

lemma scattering_union:
  assumes "named_schedules S N"
  shows "\<exists>r. snd (fold (addStmtScat N) (stmts S)
                 (None, Some (isl_union_map_empty (getParamSpace S)))) = Some r \<and>
             umap_pairs r = scatterings_of N (stmts S)"
proof -
  let ?e = "Some (isl_union_map_empty (getParamSpace S))"
  have "named_union ?e"
    using assms by (simp add: named_union_def named_schedules_def isl_union_map_empty_def)
  with assms have "named_union (snd (fold (addStmtScat N) (stmts S) (None, ?e)))"
    by (intro fold_addStmtScat_named) (simp_all add: named_schedules_def)
  then obtain r where r: "snd (fold (addStmtScat N) (stmts S) (None, ?e)) = Some r"
    by (auto simp: named_union_def)
  from fold_addStmtScat_snd [OF r] show ?thesis
    using r by (simp add: isl_union_map_empty_def)
qed

lemma fix_all_None: "fix_all n None = None"
  unfolding fix_all_def by (induction n) (simp_all add: ptr_bind_def)

lemma fix_all_Some:
  "n \<le> snd (set_tuple s) \<Longrightarrow>
   fix_all n (Some s) = Some (s\<lparr>set_points := {p \<in> set_points s. \<forall>i<n. coords p ! i = 0}\<rparr>)"
proof (induction n)
  case 0
  show ?case by (simp add: fix_all_def)
next
  case (Suc n)
  then have IH: "fix_all n (Some s) = Some (s\<lparr>set_points := {p \<in> set_points s. \<forall>i<n. coords p ! i = 0}\<rparr>)"
    by simp
  have "fix_all (Suc n) (Some s) = ptr_bind (isl_set_fix_si n 0) (fix_all n (Some s))"
    by (simp add: fix_all_def)
  also have "\<dots> = Some (s\<lparr>set_points := {p \<in> set_points s. (\<forall>i<n. coords p ! i = 0) \<and> coords p ! n = 0}\<rparr>)"
    using Suc.prems by (simp add: IH ptr_bind_def isl_set_fix_si_def)
  also have "{p \<in> set_points s. (\<forall>i<n. coords p ! i = 0) \<and> coords p ! n = 0} =
      {p \<in> set_points s. \<forall>i<Suc n. coords p ! i = 0}"
    by (auto simp: less_Suc_eq)
  finally show ?case .
qed

lemma zero_points:
  "{p. space_of p = (nm, n) \<and> (\<forall>i<n. coords p ! i = 0)} =
   {p. space_of p = (nm, n) \<and> coords p = replicate n 0}"
  by (auto simp: space_of_def list_eq_iff_nth_eq)

lemma lex_le_zero: "lex_le d (replicate (length d) 0) = lex_nonpositive d"
  by (induction d) (auto simp: lex_nonpositive_def)

lemma vec_sub_Cons [simp]: "vec_sub (y # ys) (x # xs) = (y - x) # vec_sub ys xs"
  by (simp add: vec_sub_def)

lemma vec_sub_Nil [simp]: "vec_sub [] xs = []" "vec_sub ys [] = []"
  by (simp_all add: vec_sub_def)

lemma length_vec_sub [simp]: "length (vec_sub b a) = min (length b) (length a)"
  by (simp add: vec_sub_def)

lemma lex_lt_delta:
  "length a = length b \<Longrightarrow> lex_lt a b \<Longrightarrow> \<not> lex_le (vec_sub b a) (replicate (length a) 0)"
proof (induction a b rule: list_induct2)
  case Nil
  then show ?case by simp
next
  case (Cons x xs y ys)
  then show ?case by auto
qed

lemma delta_simps [simp]:
  "pv (delta (p, q)) = pv p"
  "tuple (delta (p, q)) = tuple p"
  "coords (delta (p, q)) = vec_sub (coords q) (coords p)"
  by (simp_all add: delta_def)

lemma space_of_delta: "space_of p = space_of q \<Longrightarrow> space_of (delta (p, q)) = space_of p"
  by (simp add: space_of_def)

lemma space_of_zero [simp]: "space_of (Pt v (fst t) (replicate (snd t) 0)) = t"
  by (simp add: space_of_def)

lemma space_of_length: "space_of p = t \<Longrightarrow> length (coords p) = snd t"
  by (auto simp: space_of_def)

lemma isValidScattering_null:
  "getDependences D TYPE_ALL = None \<Longrightarrow> isValidScattering b D S N = True"
  by (simp add: isValidScattering_def Let_def ptr1_def ptr2_def ptr_bind2_def
      isl_map_is_empty_def to_bool_def)

lemma isValidScattering_null_schedule:
  "snd (fold (addStmtScat N) (stmts S)
         (None, Some (isl_union_map_empty (getParamSpace S)))) = None \<Longrightarrow>
   isValidScattering b D S N = True"
  by (simp add: isValidScattering_def Let_def ptr1_def ptr2_def ptr_bind2_def
      isl_map_is_empty_def to_bool_def split: option.splits)

lemma isValidScattering_char:
  assumes deps: "getDependences D TYPE_ALL = Some u"
    and sched: "snd (fold (addStmtScat N) (stmts S)
                  (None, Some (isl_union_map_empty (getParamSpace S)))) = Some r"
  shows "isValidScattering False D S N =
     (case stmts S of [] \<Rightarrow> True
      | x # _ \<Rightarrow>
          (\<forall>ta tb. (ta, tb) \<in> time_pairs (umap_pairs u) (scatterings_of N (stmts S)) \<longrightarrow>
             space_of ta = map_out (StmtScat N x) \<longrightarrow> space_of tb = map_out (StmtScat N x) \<longrightarrow>
             \<not> lex_le (vec_sub (coords tb) (coords ta)) (replicate (snd (map_out (StmtScat N x))) 0)))"
proof (cases "stmts S")
  case Nil
  then show ?thesis
    by (simp add: isValidScattering_def Let_def deps ptr1_def ptr2_def ptr_bind_def
        ptr_bind2_def isl_set_dim_def fix_all_None isl_map_is_empty_def to_bool_def)
next
  case (Cons x xs)
  let ?t = "map_out (StmtScat N x)"
  let ?n = "snd (map_out (StmtScat N x))"
  let ?st = "fold (addStmtScat N) (stmts S) (None, Some (isl_union_map_empty (getParamSpace S)))"
  have sp: "fst ?st = Some (isl_space_range (isl_map_get_space (StmtScat N x)))"
    using fold_addStmtScat_fst [of N "stmts S" None] by (simp add: Cons)
  have sc: "umap_pairs r = scatterings_of N (stmts S)"
    using fold_addStmtScat_snd [OF sched] by (simp add: isl_union_map_empty_def)
  have tup: "space_tuples (isl_space_range (isl_map_get_space (StmtScat N x))) = [?t]"
    by (simp add: isl_space_range_def isl_map_get_space_def)
  obtain z0 where z0: "isl_set_universe (isl_space_range (isl_map_get_space (StmtScat N x))) = Some z0"
    and z0t: "set_tuple z0 = ?t" and z0p: "set_points z0 = {p. space_of p = ?t}"
    by (simp add: isl_set_universe_def tup)
  have zero: "fix_all (snd ?t) (Some z0) =
      Some (z0\<lparr>set_points := {p \<in> set_points z0. \<forall>i<?n. coords p ! i = 0}\<rparr>)"
    by (rule fix_all_Some) (simp add: z0t)
  have zpts: "{p \<in> set_points z0. \<forall>i<?n. coords p ! i = 0} =
      {p. space_of p = ?t \<and> coords p = replicate (snd ?t) 0}"
    using zero_points [of "fst ?t" ?n] by (simp add: z0p)
  have tp: "\<And>p q. (\<exists>qa. (\<exists>pa. (pa, qa) \<in> umap_pairs u \<and> (pa, p) \<in> scatterings_of N (stmts S)) \<and>
                        (qa, q) \<in> scatterings_of N (stmts S)) =
        ((p, q) \<in> time_pairs (umap_pairs u) (scatterings_of N (stmts S)))"
    by (auto simp: time_pairs_def)
  let ?X = "{(p, q). (p, q) \<in> time_pairs (umap_pairs u) (scatterings_of N (stmts S)) \<and>
      space_of p = space_of q}"
  have code: "isValidScattering False D S N =
      (\<forall>a b. pv a = pv b \<longrightarrow> coords b = replicate ?n 0 \<longrightarrow> space_of b = ?t \<longrightarrow> space_of a = ?t \<longrightarrow>
          a \<in> delta ` ?X \<longrightarrow> \<not> lex_le (coords a) (replicate ?n 0))"
    unfolding isValidScattering_def Let_def
    by (simp add: deps sp sched ptr1_def ptr2_def ptr_bind_def ptr_bind2_def z0 isl_set_dim_def
        z0t zero zpts
        isl_union_set_extract_set_def tup isl_map_is_empty_def to_bool_def
        isl_set_lex_le_set_def isl_union_map_deltas_def isl_union_map_apply_domain_def
        isl_union_map_apply_range_def sc tp)
  have "(\<exists>a b. pv a = pv b \<and> coords b = replicate ?n 0 \<and> space_of b = ?t \<and> space_of a = ?t \<and>
          a \<in> delta ` ?X \<and> lex_le (coords a) (replicate ?n 0)) =
        (\<exists>ta tb. (ta, tb) \<in> time_pairs (umap_pairs u) (scatterings_of N (stmts S)) \<and>
             space_of ta = ?t \<and> space_of tb = ?t \<and>
             lex_le (vec_sub (coords tb) (coords ta)) (replicate ?n 0))"
    (is "?L = ?R")
  proof
    assume ?L
    then obtain a b p q where "(p, q) \<in> ?X" "a = delta (p, q)" "space_of a = ?t"
      "lex_le (coords a) (replicate ?n 0)" by auto
    then show ?R using space_of_delta [of p q] by auto
  next
    assume ?R
    then obtain ta tb where t: "(ta, tb) \<in> time_pairs (umap_pairs u) (scatterings_of N (stmts S))"
      "space_of ta = ?t" "space_of tb = ?t"
      "lex_le (vec_sub (coords tb) (coords ta)) (replicate ?n 0)" by blast
    let ?a = "delta (ta, tb)"
    let ?b = "Pt (pv ta) (fst ?t) (replicate ?n 0)"
    have "(ta, tb) \<in> ?X" using t by simp
    then have "?a \<in> delta ` ?X" by (rule imageI)
    moreover have "space_of ?a = ?t" using t space_of_delta [of ta tb] by simp
    moreover have "space_of ?b = ?t" by simp
    moreover have "pv ?a = pv ?b" "coords ?b = replicate ?n 0" by simp_all
    moreover have "lex_le (coords ?a) (replicate ?n 0)" using t by simp
    ultimately show ?L by blast
  qed
  then show ?thesis
    unfolding code by (simp add: Cons) blast
qed

lemma unsigned_sub_le: "b \<le> a \<Longrightarrow> a < 2 ^ 32 \<Longrightarrow> unsigned_sub a b = a - b"
  unfolding unsigned_sub_def
  by (simp add: nat_diff_distrib' zmod_trivial_iff of_nat_diff)

lemma project_out_wf:
  assumes "wf_scattering x" "depth \<le> getNumScattering x" "getNumScattering x < 2 ^ 32"
  shows "\<exists>m. isl_map_project_out (getScattering x) depth (unsigned_sub (getNumScattering x) depth) = Some m
     \<and> map_params m = map_params (getScattering x)
     \<and> map_pairs m = (\<lambda>(p, q). (p, Pt (pv q) [] (take depth (coords q)))) ` map_pairs (getScattering x)"
proof -
  have n: "unsigned_sub (getNumScattering x) depth = getNumScattering x - depth"
    using assms by (simp add: unsigned_sub_le)
  have "\<And>p q. (p, q) \<in> map_pairs (getScattering x) \<Longrightarrow>
      project_point depth (getNumScattering x - depth) q = Pt (pv q) [] (take depth (coords q))"
    using assms by (auto simp: wf_scattering_def project_point_def)
  then have "(\<lambda>(p, q). (p, project_point depth (getNumScattering x - depth) q)) ` map_pairs (getScattering x)
     = (\<lambda>(p, q). (p, Pt (pv q) [] (take depth (coords q)))) ` map_pairs (getScattering x)"
    by (intro image_cong) auto
  moreover have "depth + (getNumScattering x - depth) \<le> snd (map_out (getScattering x))"
    using assms by (simp add: getNumScattering_def)
  ultimately show ?thesis
    unfolding n isl_map_project_out_def by simp
qed

lemma fold_combined:
  assumes "\<forall>x \<in> set xs. wf_scattering x \<and> depth \<le> getNumScattering x \<and> getNumScattering x < 2 ^ 32"
    and "\<forall>x \<in> set xs. has_named_params (map_params (getScattering x))"
    and "has_named_params (umap_params u0)"
  shows "\<exists>sch. fold (\<lambda>Stmt schedule.
                 let remainingDimensions = unsigned_sub (getNumScattering Stmt) depth;
                     Scattering = isl_map_project_out (getScattering Stmt) depth
                                    remainingDimensions
                 in ptr_bind2 isl_union_map_add_map schedule Scattering) xs (Some u0) = Some sch \<and>
           umap_pairs sch = umap_pairs u0 \<union> truncated depth xs"
  using assms
proof (induction xs arbitrary: u0)
  case Nil
  show ?case by (simp add: truncated_def)
next
  case (Cons x xs)
  from Cons.prems obtain m where
    m: "isl_map_project_out (getScattering x) depth (unsigned_sub (getNumScattering x) depth) = Some m"
    "map_params m = map_params (getScattering x)"
    "map_pairs m = (\<lambda>(p, q). (p, Pt (pv q) [] (take depth (coords q)))) ` map_pairs (getScattering x)"
    using project_out_wf [of x depth] by auto
  from Cons.prems have rest: "\<forall>x \<in> set xs. wf_scattering x \<and> depth \<le> getNumScattering x \<and> getNumScattering x < 2 ^ 32"
    "\<forall>x \<in> set xs. has_named_params (map_params (getScattering x))"
    by simp_all
  from Cons.prems have "has_named_params (map_params m)" by (simp add: m)
  from add_map_named [OF Cons.prems(3) this] obtain u1 where
    u1: "isl_union_map_add_map u0 m = Some u1" "has_named_params (umap_params u1)" by blast
  from add_map_pairs [OF u1(1)] show ?case
    using Cons.IH [OF rest u1(2)]
    by (auto simp: Let_def m u1 ptr_bind2_def truncated_def)
qed

lemma combined_schedule:
  assumes "\<forall>x \<in> set (stmts S). wf_scattering x \<and> depth \<le> getNumScattering x \<and> getNumScattering x < 2 ^ 32"
    and "named_schedules S Map.empty"
  shows "\<exists>sch. getCombinedScheduleForSpace S depth = Some sch \<and>
           umap_pairs sch = truncated depth (stmts S)"
proof -
  have nm: "\<forall>x \<in> set (stmts S). has_named_params (map_params (getScattering x))"
    using assms(2) by (simp add: named_schedules_def StmtScat_def)
  have e: "has_named_params (umap_params (isl_union_map_empty (getParamSpace S)))"
    using assms(2) by (simp add: named_schedules_def isl_union_map_empty_def)
  from fold_combined [OF assms(1) nm e] show ?thesis
    by (simp add: getCombinedScheduleForSpace_def Let_def isl_union_map_empty_def)
qed

lemma truncated_space: "(p, q) \<in> truncated depth xs \<Longrightarrow>
  \<forall>x \<in> set xs. wf_scattering x \<and> depth \<le> getNumScattering x \<Longrightarrow> space_of q = ([], depth)"
  by (fastforce simp: truncated_def wf_scattering_def space_of_def)

lemma carried_iff:
  assumes "length d = n" "0 < n"
  shows "((\<forall>i<n - 1. d ! i = 0) \<and> \<not> (\<forall>i<n. d ! i = 0)) = carried_by_last d"
proof -
  from assms obtain ys y where d: "d = ys @ [y]"
    by (metis length_greater_0_conv rev_exhaust)
  have "(\<forall>i<length ys. (ys @ [y]) ! i = 0) = (\<forall>x \<in> set ys. x = 0)"
    by (auto simp: nth_append all_set_conv_all_nth)
  moreover have "(\<forall>i<Suc (length ys). (ys @ [y]) ! i = 0) = ((\<forall>x \<in> set ys. x = 0) \<and> y = 0)"
    by (auto simp: nth_append all_set_conv_all_nth less_Suc_eq)
  ultimately show ?thesis
    using assms by (auto simp: carried_by_last_def zero_but_last_def d list_all_iff)
qed

lemma isParallelDimension_null:
  "getDependences D TYPE_ALL = None \<Longrightarrow> isParallelDimension D S Dom depth = True"
  by (simp add: isParallelDimension_def Let_def ptr1_def ptr2_def
      isl_union_set_is_empty_def to_bool_def)

lemma isParallelDimension_char:
  assumes deps: "getDependences D TYPE_ALL = Some u"
    and depth: "0 < depth" "depth < 2 ^ 32"
    and wf: "\<forall>x \<in> set (stmts S). wf_scattering x \<and> depth \<le> getNumScattering x \<and> getNumScattering x < 2 ^ 32"
    and named: "named_schedules S Map.empty"
  shows "isParallelDimension D S Dom depth =
     (\<forall>ta tb. (ta, tb) \<in> time_pairs (umap_pairs u) (truncated depth (stmts S)) \<longrightarrow>
        ta \<in> set_points Dom \<longrightarrow> tb \<in> set_points Dom \<longrightarrow>
        \<not> carried_by_last (vec_sub (coords tb) (coords ta)))"
proof -
  obtain sch where sch: "getCombinedScheduleForSpace S depth = Some sch"
    "umap_pairs sch = truncated depth (stmts S)"
    using combined_schedule [OF wf named] by blast
  let ?t = "([], depth) :: tuple_space"
  let ?U = "\<lparr>set_params = [], set_tuple = ?t, set_points = {p. space_of p = ?t}\<rparr>"
  have univ: "isl_set_universe (isl_space_set_alloc 0 depth) = Some ?U"
    by (simp add: isl_set_universe_def isl_space_set_alloc_def)
  have dim: "isl_space_dim (isl_space_set_alloc 0 depth) = depth"
    by (simp add: isl_space_dim_def isl_space_set_alloc_def)
  have az: "fix_all depth (Some ?U) =
      Some (?U\<lparr>set_points := {p \<in> set_points ?U. \<forall>i<depth. coords p ! i = 0}\<rparr>)"
    by (rule fix_all_Some) simp
  have lu: "fix_all (unsigned_sub depth (Suc 0)) (Some ?U) =
      Some (?U\<lparr>set_points := {p \<in> set_points ?U. \<forall>i<depth - 1. coords p ! i = 0}\<rparr>)"
    using depth fix_all_Some [of "depth - 1" ?U] by (simp add: unsigned_sub_le)
  have al: "align_params [] (space_params (getParamSpace S)) =
      Some (merge_params [] (space_params (getParamSpace S)))"
    using named by (intro align_named) (simp_all add: named_schedules_def has_named_params_def)
  have tp: "\<And>p q. (\<exists>pa. (\<exists>q. (pa, q) \<in> umap_pairs u \<and> (q, qa) \<in> truncated depth (stmts S)) \<and>
                        (pa, p) \<in> truncated depth (stmts S)) =
        ((p, qa) \<in> time_pairs (umap_pairs u) (truncated depth (stmts S)))" for qa
    by (auto simp: time_pairs_def)
  let ?X = "{(p, q). (p, q) \<in> time_pairs (umap_pairs u) (truncated depth (stmts S)) \<and>
      p \<in> set_points Dom \<and> q \<in> set_points Dom}"
  have code: "isParallelDimension D S Dom depth =
     (delta ` {(p, q). (p, q) \<in> time_pairs (umap_pairs u) (truncated depth (stmts S)) \<and>
         p \<in> set_points Dom \<and> q \<in> set_points Dom \<and> space_of p = space_of q}
      \<subseteq> {p. space_of p = ?t \<and> (space_of p = ?t \<longrightarrow>
             (\<exists>i<depth - Suc 0. coords p ! i \<noteq> 0) \<or> (\<forall>i<depth. coords p ! i = 0))})"
    unfolding isParallelDimension_def Let_def
    by (simp add: deps sch ptr1_def ptr2_def ptr_bind_def univ dim az lu al
        isl_set_align_params_def
        isl_set_subtract_def isl_set_complement_def isl_union_set_from_set_def
        isl_union_set_subtract_def isl_union_set_is_empty_def to_bool_def
        isl_union_map_deltas_def isl_union_map_apply_domain_def isl_union_map_apply_range_def
        isl_union_map_intersect_domain_def isl_union_map_intersect_range_def tp)
  have sp: "space_of ta = ?t \<and> space_of tb = ?t"
    if "(ta, tb) \<in> time_pairs (umap_pairs u) (truncated depth (stmts S))" for ta tb
    using that wf truncated_space [of _ _ depth "stmts S"] by (auto simp: time_pairs_def)
  have car: "((\<exists>i<depth - Suc 0. vec_sub (coords tb) (coords ta) ! i \<noteq> 0) \<or>
              (\<forall>i<depth. vec_sub (coords tb) (coords ta) ! i = 0)) =
             (\<not> carried_by_last (vec_sub (coords tb) (coords ta)))"
    if "(ta, tb) \<in> time_pairs (umap_pairs u) (truncated depth (stmts S))" for ta tb
  proof -
    have "length (vec_sub (coords tb) (coords ta)) = depth"
      using sp [OF that] by (simp add: space_of_def)
    from carried_iff [OF this depth(1)] show ?thesis by auto
  qed
  show ?thesis
    unfolding code
  proof (intro iffI allI impI)
    fix ta tb
    assume sub: "delta ` {(p, q). (p, q) \<in> time_pairs (umap_pairs u) (truncated depth (stmts S)) \<and>
         p \<in> set_points Dom \<and> q \<in> set_points Dom \<and> space_of p = space_of q}
      \<subseteq> {p. space_of p = ?t \<and> (space_of p = ?t \<longrightarrow>
             (\<exists>i<depth - Suc 0. coords p ! i \<noteq> 0) \<or> (\<forall>i<depth. coords p ! i = 0))}"
      and t: "(ta, tb) \<in> time_pairs (umap_pairs u) (truncated depth (stmts S))"
      "ta \<in> set_points Dom" "tb \<in> set_points Dom"
    have mem: "delta (ta, tb) \<in> delta ` {(p, q). (p, q) \<in> time_pairs (umap_pairs u) (truncated depth (stmts S)) \<and>
         p \<in> set_points Dom \<and> q \<in> set_points Dom \<and> space_of p = space_of q}"
      using t sp [OF t(1)] by (intro imageI) simp
    from subsetD [OF sub mem]
    have "(\<exists>i<depth - Suc 0. vec_sub (coords tb) (coords ta) ! i \<noteq> 0) \<or>
              (\<forall>i<depth. vec_sub (coords tb) (coords ta) ! i = 0)"
      by simp
    then show "\<not> carried_by_last (vec_sub (coords tb) (coords ta))"
      using car [OF t(1)] by simp
  next
    assume all: "\<forall>ta tb. (ta, tb) \<in> time_pairs (umap_pairs u) (truncated depth (stmts S)) \<longrightarrow>
        ta \<in> set_points Dom \<longrightarrow> tb \<in> set_points Dom \<longrightarrow>
        \<not> carried_by_last (vec_sub (coords tb) (coords ta))"
    show "delta ` {(p, q). (p, q) \<in> time_pairs (umap_pairs u) (truncated depth (stmts S)) \<and>
         p \<in> set_points Dom \<and> q \<in> set_points Dom \<and> space_of p = space_of q}
      \<subseteq> {p. space_of p = ?t \<and> (space_of p = ?t \<longrightarrow>
             (\<exists>i<depth - Suc 0. coords p ! i \<noteq> 0) \<or> (\<forall>i<depth. coords p ! i = 0))}"
    proof (clarify, intro conjI impI)
      fix p q
      assume t: "(p, q) \<in> time_pairs (umap_pairs u) (truncated depth (stmts S))"
        "p \<in> set_points Dom" "q \<in> set_points Dom" "space_of p = space_of q"
      show "space_of (delta (p, q)) = ?t"
        using sp [OF t(1)] space_of_delta [OF t(4)] by simp
      from all t have "\<not> carried_by_last (vec_sub (coords q) (coords p))" by blast
      then show "(\<exists>i<depth - Suc 0. coords (delta (p, q)) ! i \<noteq> 0) \<or>
          (\<forall>i<depth. coords (delta (p, q)) ! i = 0)"
        using car [OF t(1)] by simp
    qed
  qed
qed

section \<open>The queries in terms of the cached pairs\<close>

lemma getDependences_all:
  assumes "computed D"
  shows "\<exists>u. getDependences D TYPE_ALL = Some u \<and> umap_pairs u = all_deps D"
proof -
  from assms obtain r a w where c: "RAW D = Some r" "WAR D = Some a" "WAW D = Some w"
    by (auto simp: computed_def)
  from getDependences_pairs [OF c, of TYPE_ALL] show ?thesis
    by (simp add: requested_def all_deps_def TYPE_ALL_bits)
qed

lemma isValidScattering_first_space:
  assumes c: "computed D" and named: "named_schedules S N"
  shows "isValidScattering False D S N =
           (\<forall>d \<in> first_space_deltas D S N. \<not> lex_nonpositive d)"
proof -
  obtain u where deps: "getDependences D TYPE_ALL = Some u" "umap_pairs u = all_deps D"
    using getDependences_all [OF c] by blast
  obtain r where sched: "snd (fold (addStmtScat N) (stmts S)
      (None, Some (isl_union_map_empty (getParamSpace S)))) = Some r"
    using scattering_union [OF named] by blast
  show ?thesis
  proof (cases "stmts S")
    case Nil
    then show ?thesis
      using isValidScattering_char [OF deps(1) sched]
      by (simp add: first_space_deltas_def)
  next
    case (Cons x xs)
    let ?t = "map_out (StmtScat N x)"
    have le: "lex_le (vec_sub (coords tb) (coords ta)) (replicate (snd ?t) 0) =
        lex_nonpositive (vec_sub (coords tb) (coords ta))"
      if "space_of ta = ?t" "space_of tb = ?t" for ta tb
    proof -
      have "length (vec_sub (coords tb) (coords ta)) = snd ?t"
        using that by (simp add: space_of_length)
      then show ?thesis using lex_le_zero [of "vec_sub (coords tb) (coords ta)"] by simp
    qed
    show ?thesis
      using isValidScattering_char [OF deps(1) sched] le
      by (auto simp: Cons deps(2) first_space_deltas_def)
  qed
qed

lemma uniform_first_space:
  assumes "uniform_time S N"
  shows "first_space_deltas D S N = time_deltas D S N"
proof (cases "stmts S")
  case Nil
  then show ?thesis
    by (simp add: first_space_deltas_def time_deltas_def time_pairs_def scatterings_of_def)
next
  case (Cons x xs)
  let ?t = "map_out (StmtScat N x)"
  have "space_of ta = ?t \<and> space_of tb = ?t"
    if "(ta, tb) \<in> time_pairs (all_deps D) (scatterings_of N (stmts S))" for ta tb
    using that assms by (fastforce simp: uniform_time_def Cons time_pairs_def scatterings_of_def)
  then have "{(ta, tb) \<in> time_pairs (all_deps D) (scatterings_of N (stmts S)).
               space_of ta = ?t \<and> space_of tb = ?t} =
             time_pairs (all_deps D) (scatterings_of N (stmts S))"
    by auto
  then show ?thesis
    by (simp add: first_space_deltas_def time_deltas_def Cons)
qed

lemma isValidScattering_iff:
  assumes "computed D" "named_schedules S N" "uniform_time S N"
  shows "isValidScattering False D S N = (\<forall>d \<in> time_deltas D S N. \<not> lex_nonpositive d)"
  using isValidScattering_first_space [OF assms(1,2)] uniform_first_space [OF assms(3)]
  by simp

lemma isParallelDimension_iff:
  assumes c: "computed D" and depth: "0 < depth" "depth < 2 ^ 32" and wf: "deep_enough depth S"
    and named: "named_schedules S Map.empty"
  shows "isParallelDimension D S Dom depth =
     (\<forall>d \<in> depth_deltas D S Dom depth. \<not> carried_by_last d)"
proof -
  obtain u where deps: "getDependences D TYPE_ALL = Some u" "umap_pairs u = all_deps D"
    using getDependences_all [OF c] by blast
  from wf have wf': "\<forall>x \<in> set (stmts S). wf_scattering x \<and> depth \<le> getNumScattering x \<and>
      getNumScattering x < 2 ^ 32"
    by (simp add: deep_enough_def)
  show ?thesis
    unfolding isParallelDimension_char [OF deps(1) depth wf' named] deps(2) depth_deltas_def
    by auto
qed

lemma isParallelDimension_no_time_points:
  assumes c: "computed D" and depth: "0 < depth" "depth < 2 ^ 32" and wf: "deep_enough depth S"
    and named: "named_schedules S Map.empty"
    and dom: "\<forall>p \<in> set_points Dom. tuple p \<noteq> []"
  shows "isParallelDimension D S Dom depth"
proof -
  have "depth_deltas D S Dom depth = {}"
    using dom by (fastforce simp: depth_deltas_def time_pairs_def truncated_def)
  then show ?thesis
    by (simp add: isParallelDimension_iff [OF c depth wf named])
qed

lemma query_cong:
  assumes "RAW D = RAW D'" "WAR D = WAR D'" "WAW D = WAW D'"
  shows "getDependences D Kinds = getDependences D' Kinds"
    "isValidScattering b D S N = isValidScattering b D' S N"
    "isParallelDimension D S Dom depth = isParallelDimension D' S Dom depth"
proof -
  show g: "getDependences D Kinds = getDependences D' Kinds" for Kinds
    by (simp only: getDependences_def assms)
  show "isValidScattering b D S N = isValidScattering b D' S N"
    by (simp add: isValidScattering_def g)
  show "isParallelDimension D S Dom depth = isParallelDimension D' S Dom depth"
    by (simp add: isParallelDimension_def g)
qed

lemma ptr1_coalesce [simp]: "ptr1 isl_union_map_coalesce x = x"
  by (cases x) (simp_all add: ptr1_def isl_union_map_coalesce_def)

lemma calculateDependences_fields:
  "RAW (calculateDependences flow S D) = must_dep (first_flow flow S)"
  "WAW (calculateDependences flow S D) = must_dep (second_flow flow S)"
  "WAR (calculateDependences flow S D) = may_dep (second_flow flow S)"
  "flow_calls (calculateDependences flow S D) = flow_calls D + 2"
  "unreleased (calculateDependences flow S D) =
     unreleased D + held (RAW D) + held (WAW D) + held (WAR D)"
  by (simp_all add: calculateDependences_def Let_def first_flow_def second_flow_def)

lemma runOnScop_fields:
  "RAW (runOnScop flow S D) = must_dep (first_flow flow S)"
  "WAW (runOnScop flow S D) = must_dep (second_flow flow S)"
  "WAR (runOnScop flow S D) = may_dep (second_flow flow S)"
  "flow_calls (runOnScop flow S D) = flow_calls D + 2"
  "unreleased (runOnScop flow S D) = unreleased D"
  by (simp_all add: runOnScop_def calculateDependences_fields releaseMemory_def held_def)



lemma compute_flow_null:
  "sink = None \<or> must_source = None \<or> may_source = None \<or> schedule = None \<Longrightarrow>
   isl_union_map_compute_flow flow sink must_source may_source schedule =
     \<lparr>must_dep = None, may_dep = None\<rparr>"
  by (auto simp: isl_union_map_compute_flow_def split: option.splits)

lemma runOnScop_null_union:
  assumes "Read (collectInfo S) = None \<or> Write (collectInfo S) = None \<or>
           Schedule (collectInfo S) = None"
  shows "RAW (runOnScop flow S D) = None" "WAW (runOnScop flow S D) = None"
    "WAR (runOnScop flow S D) = None"
  using assms
  by (auto simp: runOnScop_fields first_flow_def second_flow_def compute_flow_null)





lemma fold_serve_queries: "list_all is_query rs \<Longrightarrow> fold (serve flow) rs D = D"
proof (induction rs)
  case Nil
  show ?case by simp
next
  case (Cons r rs)
  then show ?case by (cases r) simp_all
qed

lemma isl_flow_in_order: "flow_in_order isl_flow"
  by (auto simp: flow_in_order_def isl_flow_def must_pairs_def may_pairs_def pairs_of_def
      split: option.splits)

lemma deps_in_order:
  assumes fl: "flow_in_order flow" and ab: "(a, b) \<in> all_deps (runOnScop flow S D)"
  shows "\<exists>s. Schedule (collectInfo S) = Some s \<and> scheduled_before s a b"
proof -
  have one: "\<exists>s. schedule = Some s \<and> scheduled_before s a b"
    if "(a, b) \<in> pairs_of (must_dep (isl_union_map_compute_flow flow sink must may schedule)) \<union>
                 pairs_of (may_dep (isl_union_map_compute_flow flow sink must may schedule))"
    for sink must may schedule
  proof -
    from that obtain x c m s where args: "sink = Some x" "must = Some c" "may = Some m"
      "schedule = Some s"
      by (auto simp: isl_union_map_compute_flow_def pairs_of_def split: option.splits)
    with that have "(a, b) \<in> pairs_of (must_dep (flow x c m s)) \<union>
                            pairs_of (may_dep (flow x c m s))"
      by (simp add: isl_union_map_compute_flow_def)
    with fl have "scheduled_before s a b"
      unfolding flow_in_order_def by blast
    with args show ?thesis by simp
  qed
  have sel: "selected True p = pairs_of p" for p
    by (simp add: selected_def pairs_of_def split: option.splits)
  from ab have "(a, b) \<in> pairs_of (must_dep (first_flow flow S)) \<union>
                          pairs_of (may_dep (first_flow flow S)) \<or>
                (a, b) \<in> pairs_of (must_dep (second_flow flow S)) \<union>
                          pairs_of (may_dep (second_flow flow S))"
    by (auto simp: all_deps_def sel runOnScop_fields)
  then show ?thesis
    unfolding first_flow_def second_flow_def using one by blast
qed

lemma current_schedule_valid:
  assumes fl: "flow_in_order flow" and sv: "single_valued_schedule S"
  shows "isValidScattering flag (runOnScop flow S D) S Map.empty"
proof (cases flag)
  case True
  then show ?thesis by (simp add: isValidScattering_def)
next
  case False
  let ?D = "runOnScop flow S D"
  let ?st = "fold (addStmtScat Map.empty) (stmts S)
      (None, Some (isl_union_map_empty (getParamSpace S)))"
  show ?thesis
  proof (cases "computed ?D \<and> snd ?st \<noteq> None")
    case False
    then show ?thesis
      using getDependences_all_null [of ?D] isValidScattering_null [of ?D flag S Map.empty]
        isValidScattering_null_schedule [of Map.empty S flag ?D]
      by auto
  next
    case True
    then obtain r where sched: "snd ?st = Some r" by auto
    obtain u where deps: "getDependences ?D TYPE_ALL = Some u" "umap_pairs u = all_deps ?D"
      using getDependences_all True by blast
    have pos: "\<not> lex_le (vec_sub (coords tb) (coords ta)) (replicate (length (coords ta)) 0)"
      if tp: "(ta, tb) \<in> time_pairs (all_deps ?D) (scatterings_of Map.empty (stmts S))"
        and sp: "space_of ta = space_of tb" for ta tb
    proof -
      from tp obtain a b where ab: "(a, b) \<in> all_deps ?D"
        "(a, ta) \<in> scatterings_of Map.empty (stmts S)"
        "(b, tb) \<in> scatterings_of Map.empty (stmts S)"
        by (auto simp: time_pairs_def)
      from deps_in_order [OF fl ab(1)] obtain s where
        s: "Schedule (collectInfo S) = Some s" "scheduled_before s a b" by blast
      from s(2) collectInfo_pairs(4) [OF s(1)] obtain ta' tb' where
        t': "(a, ta') \<in> scatterings_of Map.empty (stmts S)"
        "(b, tb') \<in> scatterings_of Map.empty (stmts S)"
        "space_of ta' = space_of tb'" "lex_lt (coords ta') (coords tb')"
        by (auto simp: scheduled_before_def)
      from sv ab t' have "ta' = ta" "tb' = tb"
        unfolding single_valued_schedule_def by blast+
      with t' have "lex_lt (coords ta) (coords tb)" "length (coords ta) = length (coords tb)"
        by (simp_all add: space_of_def)
      then show ?thesis using lex_lt_delta by blast
    qed
    show ?thesis
    proof (cases "stmts S")
      case Nil
      then show ?thesis
        using isValidScattering_char [OF deps(1) sched] \<open>\<not> flag\<close> by simp
    next
      case (Cons x xs)
      have "\<not> lex_le (vec_sub (coords tb) (coords ta))
                (replicate (snd (map_out (StmtScat Map.empty x))) 0)"
        if "(ta, tb) \<in> time_pairs (all_deps ?D) (scatterings_of Map.empty (stmts S))"
          "space_of ta = map_out (StmtScat Map.empty x)"
          "space_of tb = map_out (StmtScat Map.empty x)"
        for ta tb
      proof -
        have "snd (map_out (StmtScat Map.empty x)) = length (coords ta)"
          using that(2) by (simp add: space_of_length)
        then show ?thesis using pos [OF that(1)] that(2,3) by simp
      qed
      then show ?thesis
        using isValidScattering_char [OF deps(1) sched] \<open>\<not> flag\<close>
        by (simp add: Cons deps(2))
    qed
  qed
qed

section \<open>Parameter spaces that cannot be aligned\<close>

lemma add_map_agrees:
  assumes "agrees_with P p"
  shows "agrees_with P (ptr_bind2 isl_union_map_add_map p q)"
proof -
  have "umap_params r = P \<or> (has_named_params P \<and> has_named_params (umap_params r))"
    if p: "p = Some u" and r: "isl_union_map_add_map u m = Some r" for u m r
  proof -
    from assms p have u: "umap_params u = P \<or>
        (has_named_params P \<and> has_named_params (umap_params u))"
      by (simp add: agrees_with_def)
    show ?thesis
    proof (cases "map_pairs m = {} \<or> umap_params u = map_params m")
      case True
      with r have "umap_params r = umap_params u"
        by (auto simp: isl_union_map_add_map_def split: if_splits)
      with u show ?thesis by simp
    next
      case False
      with r have named: "has_named_params (umap_params u)" "has_named_params (map_params m)"
        and ps: "umap_params r = merge_params (umap_params u) (map_params m)"
        by (auto simp: isl_union_map_add_map_def align_params_def split: if_splits)
      from u named have "has_named_params P" by auto
      with named ps show ?thesis by (simp add: merge_named)
    qed
  qed
  then show ?thesis
    by (auto simp: agrees_with_def ptr_bind2_def split: option.splits)
qed

lemma collectAccess_agrees:
  assumes "agrees_with P (Read I)" "agrees_with P (Write I)" "agrees_with P (Schedule I)"
  shows "agrees_with P (Read (collectAccess x m I)) \<and>
         agrees_with P (Write (collectAccess x m I)) \<and>
         agrees_with P (Schedule (collectAccess x m I))"
  using assms add_map_agrees [of P]
  by (simp add: collectAccess_def Let_def)

lemma fold_collectAccess_agrees:
  assumes "agrees_with P (Read I)" "agrees_with P (Write I)" "agrees_with P (Schedule I)"
  shows "agrees_with P (Read (fold (collectAccess x) ms I)) \<and>
         agrees_with P (Write (fold (collectAccess x) ms I)) \<and>
         agrees_with P (Schedule (fold (collectAccess x) ms I))"
  using assms
proof (induction ms arbitrary: I)
  case Nil
  then show ?case by simp
next
  case (Cons m ms)
  from collectAccess_agrees [OF Cons.prems, of x m] Cons.IH [of "collectAccess x m I"]
  show ?case by simp
qed

lemma collectStmt_agrees:
  assumes "agrees_with P (Read I)" "agrees_with P (Write I)" "agrees_with P (Schedule I)"
  shows "agrees_with P (Read (collectStmt x I)) \<and>
         agrees_with P (Write (collectStmt x I)) \<and>
         agrees_with P (Schedule (collectStmt x I))"
  using fold_collectAccess_agrees [OF assms, of x "memaccs x"] assms(3) add_map_agrees [of P]
  by (simp add: collectStmt_fields)

lemma fold_collectStmt_agrees:
  assumes "agrees_with P (Read I)" "agrees_with P (Write I)" "agrees_with P (Schedule I)"
  shows "agrees_with P (Read (fold collectStmt xs I)) \<and>
         agrees_with P (Write (fold collectStmt xs I)) \<and>
         agrees_with P (Schedule (fold collectStmt xs I))"
  using assms
proof (induction xs arbitrary: I)
  case Nil
  then show ?case by simp
next
  case (Cons x xs)
  from collectStmt_agrees [OF Cons.prems, of x] Cons.IH [of "collectStmt x I"]
  show ?case by simp
qed

lemma collectInfo_agrees:
  "agrees_with (space_params (getParamSpace S)) (Read (collectInfo S))"
  "agrees_with (space_params (getParamSpace S)) (Write (collectInfo S))"
  "agrees_with (space_params (getParamSpace S)) (Schedule (collectInfo S))"
proof -
  let ?P = "space_params (getParamSpace S)"
  let ?e = "Some (isl_union_map_empty (getParamSpace S))"
  let ?I = "\<lparr>Read = ?e, Write = ?e, MayWrite = ?e, Schedule = ?e\<rparr>"
  have e: "agrees_with ?P ?e"
    by (simp add: agrees_with_def isl_union_map_empty_def)
  have "agrees_with ?P (Read (fold collectStmt (stmts S) ?I)) \<and>
        agrees_with ?P (Write (fold collectStmt (stmts S) ?I)) \<and>
        agrees_with ?P (Schedule (fold collectStmt (stmts S) ?I))"
    by (rule fold_collectStmt_agrees) (use e in simp_all)
  then show "agrees_with ?P (Read (collectInfo S))" "agrees_with ?P (Write (collectInfo S))"
    "agrees_with ?P (Schedule (collectInfo S))"
    by (simp_all add: collectInfo_def Let_def)
qed

lemma add_map_unaligned:
  assumes "agrees_with P (Some u)" and "map_pairs m \<noteq> {}"
    and "align_params P (map_params m) = None"
  shows "isl_union_map_add_map u m = None"
proof -
  from assms(3) have ne: "P \<noteq> map_params m"
    and un: "\<not> has_named_params P \<or> \<not> has_named_params (map_params m)"
    by (auto simp: align_params_def split: if_splits)
  from assms(1) have
    "umap_params u = P \<or> (has_named_params P \<and> has_named_params (umap_params u))"
    by (simp add: agrees_with_def)
  then have "align_params (umap_params u) (map_params m) = None"
    using ne un by (auto simp: align_params_def)
  with assms(2) show ?thesis by (simp add: isl_union_map_add_map_def)
qed

lemma ptr_add_unaligned:
  assumes "agrees_with P p" and "unaligned P a"
  shows "ptr_bind2 isl_union_map_add_map p a = None"
proof (cases p)
  case None
  then show ?thesis by (simp add: ptr_bind2_def)
next
  case (Some u)
  show ?thesis
  proof (cases a)
    case None
    then show ?thesis by (simp add: ptr_bind2_def Some)
  next
    case (Some m)
    with assms(2) have "map_pairs m \<noteq> {}" "align_params P (map_params m) = None"
      by (simp_all add: unaligned_def)
    from add_map_unaligned [OF _ this, of u] assms(1) show ?thesis
      by (simp add: ptr_bind2_def \<open>p = Some u\<close> Some)
  qed
qed

lemma collectAccess_null:
  "Read I = None \<Longrightarrow> Read (collectAccess x m I) = None"
  "Write I = None \<Longrightarrow> Write (collectAccess x m I) = None"
  by (simp_all add: collectAccess_def Let_def ptr_bind2_def)

lemma fold_collectAccess_null:
  "Read I = None \<Longrightarrow> Read (fold (collectAccess x) ms I) = None"
  "Write I = None \<Longrightarrow> Write (fold (collectAccess x) ms I) = None"
  by (induction ms arbitrary: I) (simp_all add: collectAccess_null)

lemma collectStmt_null:
  "Read I = None \<Longrightarrow> Read (collectStmt x I) = None"
  "Write I = None \<Longrightarrow> Write (collectStmt x I) = None"
  "Schedule I = None \<Longrightarrow> Schedule (collectStmt x I) = None"
  by (simp_all add: collectStmt_fields fold_collectAccess_null ptr_bind2_def)

lemma fold_collectStmt_null:
  "Read I = None \<Longrightarrow> Read (fold collectStmt xs I) = None"
  "Write I = None \<Longrightarrow> Write (fold collectStmt xs I) = None"
  "Schedule I = None \<Longrightarrow> Schedule (fold collectStmt xs I) = None"
  by (induction xs arbitrary: I) (simp_all add: collectStmt_null)

lemma collectAccess_unaligned:
  assumes "agrees_with P (Read I)" "agrees_with P (Write I)"
    and "unaligned P (isl_map_intersect_domain (getAccessRelation m) (getDomain x))"
  shows "Read (collectAccess x m I) = None \<or> Write (collectAccess x m I) = None"
  using ptr_add_unaligned [OF assms(1,3)] ptr_add_unaligned [OF assms(2,3)]
  by (simp add: collectAccess_def Let_def)

lemma fold_collectAccess_unaligned:
  assumes "agrees_with P (Read I)" "agrees_with P (Write I)" "agrees_with P (Schedule I)"
    and "\<exists>m \<in> set ms.
      unaligned P (isl_map_intersect_domain (getAccessRelation m) (getDomain x))"
  shows "Read (fold (collectAccess x) ms I) = None \<or>
         Write (fold (collectAccess x) ms I) = None"
  using assms
proof (induction ms arbitrary: I)
  case Nil
  then show ?case by simp
next
  case (Cons m ms)
  note J = collectAccess_agrees [OF Cons.prems(1,2,3), of x m]
  show ?case
  proof (cases "unaligned P (isl_map_intersect_domain (getAccessRelation m) (getDomain x))")
    case True
    from collectAccess_unaligned [OF Cons.prems(1,2) True] show ?thesis
      using fold_collectAccess_null [of "collectAccess x m I" x ms] by auto
  next
    case False
    with Cons.prems(4) have "\<exists>m \<in> set ms.
        unaligned P (isl_map_intersect_domain (getAccessRelation m) (getDomain x))"
      by auto
    from Cons.IH [OF _ _ _ this, of "collectAccess x m I"] J show ?thesis by simp
  qed
qed

lemma collectStmt_unaligned:
  assumes "agrees_with P (Read I)" "agrees_with P (Write I)" "agrees_with P (Schedule I)"
    and "unaligned P (Some (getScattering x)) \<or>
         (\<exists>m \<in> set (memaccs x).
            unaligned P (isl_map_intersect_domain (getAccessRelation m) (getDomain x)))"
  shows "Read (collectStmt x I) = None \<or> Write (collectStmt x I) = None \<or>
         Schedule (collectStmt x I) = None"
  using assms(4)
proof
  assume "unaligned P (Some (getScattering x))"
  from ptr_add_unaligned [OF assms(3) this] show ?thesis
    by (simp add: collectStmt_fields)
next
  assume "\<exists>m \<in> set (memaccs x).
      unaligned P (isl_map_intersect_domain (getAccessRelation m) (getDomain x))"
  from fold_collectAccess_unaligned [OF assms(1,2,3) this] show ?thesis
    by (auto simp: collectStmt_fields)
qed

lemma fold_collectStmt_unaligned:
  assumes "agrees_with P (Read I)" "agrees_with P (Write I)" "agrees_with P (Schedule I)"
    and "\<exists>x \<in> set xs. unaligned P (Some (getScattering x)) \<or>
         (\<exists>m \<in> set (memaccs x).
            unaligned P (isl_map_intersect_domain (getAccessRelation m) (getDomain x)))"
  shows "Read (fold collectStmt xs I) = None \<or> Write (fold collectStmt xs I) = None \<or>
         Schedule (fold collectStmt xs I) = None"
  using assms
proof (induction xs arbitrary: I)
  case Nil
  then show ?case by simp
next
  case (Cons y ys)
  note J = collectStmt_agrees [OF Cons.prems(1,2,3), of y]
  show ?case
  proof (cases "unaligned P (Some (getScattering y)) \<or>
         (\<exists>m \<in> set (memaccs y).
            unaligned P (isl_map_intersect_domain (getAccessRelation m) (getDomain y)))")
    case True
    from collectStmt_unaligned [OF Cons.prems(1,2,3) True] show ?thesis
      using fold_collectStmt_null [of "collectStmt y I" ys] by auto
  next
    case False
    with Cons.prems(4) have "\<exists>x \<in> set ys. unaligned P (Some (getScattering x)) \<or>
         (\<exists>m \<in> set (memaccs x).
            unaligned P (isl_map_intersect_domain (getAccessRelation m) (getDomain x)))"
      by auto
    from Cons.IH [OF _ _ _ this, of "collectStmt y I"] J show ?thesis by simp
  qed
qed

lemma ptr_add_aligned:
  assumes "agrees_with P p" and "p \<noteq> None" and "\<not> unaligned P a"
  shows "ptr_bind2 isl_union_map_add_map p a \<noteq> None"
proof -
  from assms(2) obtain u where u: "p = Some u" by auto
  from assms(3) obtain m where m: "a = Some m"
    and ok: "map_pairs m = {} \<or> align_params P (map_params m) \<noteq> None"
    by (cases a) (auto simp: unaligned_def)
  from assms(1) u have
    ag: "umap_params u = P \<or> (has_named_params P \<and> has_named_params (umap_params u))"
    by (simp add: agrees_with_def)
  have "isl_union_map_add_map u m \<noteq> None"
  proof (cases "map_pairs m = {}")
    case True
    then show ?thesis by (simp add: isl_union_map_add_map_def)
  next
    case False
    with ok have "align_params P (map_params m) \<noteq> None" by simp
    with ag have "align_params (umap_params u) (map_params m) \<noteq> None"
      by (auto simp: align_params_def split: if_splits)
    then show ?thesis by (auto simp: isl_union_map_add_map_def)
  qed
  then show ?thesis by (simp add: ptr_bind2_def u m)
qed

lemma collectAccess_aligned:
  assumes "agrees_with P (Read I)" "agrees_with P (Write I)"
    and "Read I \<noteq> None" "Write I \<noteq> None"
    and "\<not> unaligned P (isl_map_intersect_domain (getAccessRelation m) (getDomain x))"
  shows "Read (collectAccess x m I) \<noteq> None \<and> Write (collectAccess x m I) \<noteq> None"
  using ptr_add_aligned [OF assms(1,3,5)] ptr_add_aligned [OF assms(2,4,5)] assms(3,4)
  by (simp add: collectAccess_def Let_def)

lemma fold_collectAccess_aligned:
  assumes "agrees_with P (Read I)" "agrees_with P (Write I)" "agrees_with P (Schedule I)"
    and "Read I \<noteq> None" "Write I \<noteq> None"
    and "\<forall>m \<in> set ms.
      \<not> unaligned P (isl_map_intersect_domain (getAccessRelation m) (getDomain x))"
  shows "Read (fold (collectAccess x) ms I) \<noteq> None \<and>
         Write (fold (collectAccess x) ms I) \<noteq> None"
  using assms
proof (induction ms arbitrary: I)
  case Nil
  then show ?case by simp
next
  case (Cons m ms)
  note J = collectAccess_agrees [OF Cons.prems(1,2,3), of x m]
  from Cons.prems(6) have
    m: "\<not> unaligned P (isl_map_intersect_domain (getAccessRelation m) (getDomain x))"
    and ms: "\<forall>m \<in> set ms.
      \<not> unaligned P (isl_map_intersect_domain (getAccessRelation m) (getDomain x))"
    by simp_all
  from collectAccess_aligned [OF Cons.prems(1,2,4,5) m]
  have "Read (collectAccess x m I) \<noteq> None" "Write (collectAccess x m I) \<noteq> None"
    by simp_all
  from Cons.IH [OF _ _ _ this ms] J show ?case by simp
qed

lemma collectStmt_aligned:
  assumes "agrees_with P (Read I)" "agrees_with P (Write I)" "agrees_with P (Schedule I)"
    and "Read I \<noteq> None" "Write I \<noteq> None" "Schedule I \<noteq> None"
    and "\<not> unaligned P (Some (getScattering x))"
    and "\<forall>m \<in> set (memaccs x).
      \<not> unaligned P (isl_map_intersect_domain (getAccessRelation m) (getDomain x))"
  shows "Read (collectStmt x I) \<noteq> None \<and> Write (collectStmt x I) \<noteq> None \<and>
         Schedule (collectStmt x I) \<noteq> None"
  using fold_collectAccess_aligned [OF assms(1,2,3,4,5,8)] ptr_add_aligned [OF assms(3,6,7)]
  by (simp add: collectStmt_fields)

lemma fold_collectStmt_aligned:
  assumes "agrees_with P (Read I)" "agrees_with P (Write I)" "agrees_with P (Schedule I)"
    and "Read I \<noteq> None" "Write I \<noteq> None" "Schedule I \<noteq> None"
    and "\<forall>x \<in> set xs. \<not> unaligned P (Some (getScattering x)) \<and>
         (\<forall>m \<in> set (memaccs x).
            \<not> unaligned P (isl_map_intersect_domain (getAccessRelation m) (getDomain x)))"
  shows "Read (fold collectStmt xs I) \<noteq> None \<and> Write (fold collectStmt xs I) \<noteq> None \<and>
         Schedule (fold collectStmt xs I) \<noteq> None"
  using assms
proof (induction xs arbitrary: I)
  case Nil
  then show ?case by simp
next
  case (Cons y ys)
  note J = collectStmt_agrees [OF Cons.prems(1,2,3), of y]
  from Cons.prems(7) have y: "\<not> unaligned P (Some (getScattering y))"
    "\<forall>m \<in> set (memaccs y).
      \<not> unaligned P (isl_map_intersect_domain (getAccessRelation m) (getDomain y))"
    and ys: "\<forall>x \<in> set ys. \<not> unaligned P (Some (getScattering x)) \<and>
         (\<forall>m \<in> set (memaccs x).
            \<not> unaligned P (isl_map_intersect_domain (getAccessRelation m) (getDomain x)))"
    by simp_all
  from collectStmt_aligned [OF Cons.prems(1,2,3,4,5,6) y]
  have "Read (collectStmt y I) \<noteq> None" "Write (collectStmt y I) \<noteq> None"
    "Schedule (collectStmt y I) \<noteq> None"
    by simp_all
  from Cons.IH [OF _ _ _ this ys] J show ?case by simp
qed

lemma no_mismatch_unions:
  assumes "\<not> space_mismatch S"
  shows "Read (collectInfo S) \<noteq> None \<and> Write (collectInfo S) \<noteq> None \<and>
         Schedule (collectInfo S) \<noteq> None"
proof -
  let ?P = "space_params (getParamSpace S)"
  have e: "agrees_with ?P (Some (isl_union_map_empty (getParamSpace S)))"
    by (simp add: agrees_with_def isl_union_map_empty_def)
  show ?thesis
    unfolding collectInfo_def Let_def
    by (rule fold_collectStmt_aligned [of ?P])
      (use assms e in \<open>simp_all add: space_mismatch_def\<close>)
qed

lemma space_mismatch_null_union:
  assumes "space_mismatch S"
  shows "Read (collectInfo S) = None \<or> Write (collectInfo S) = None \<or>
         Schedule (collectInfo S) = None"
proof -
  let ?P = "space_params (getParamSpace S)"
  have e: "agrees_with ?P (Some (isl_union_map_empty (getParamSpace S)))"
    by (simp add: agrees_with_def isl_union_map_empty_def)
  show ?thesis
    unfolding collectInfo_def Let_def
    by (rule fold_collectStmt_unaligned [of ?P])
      (use assms e in \<open>simp_all add: space_mismatch_def\<close>)
qed

lemma flow_params_same:
  "umap_params a = P \<Longrightarrow> umap_params b = P \<Longrightarrow> umap_params c = P \<Longrightarrow> umap_params d = P \<Longrightarrow>
   flow_params a b c d = Some P"
  by (simp add: flow_params_def ptr_bind_def)

lemma flow_params_named:
  assumes "has_named_params (umap_params a)" "has_named_params (umap_params b)"
    "has_named_params (umap_params c)" "has_named_params (umap_params d)"
  shows "\<exists>ps. flow_params a b c d = Some ps \<and> has_named_params ps"
  using assms by (simp add: flow_params_def ptr_bind_def align_named merge_named)

lemma flow_params_agree:
  assumes "agrees_with P (Some a)" "agrees_with P (Some b)" "agrees_with P (Some c)"
    "agrees_with P (Some d)"
  shows "flow_params a b c d \<noteq> None"
proof (cases "has_named_params P")
  case True
  with assms have "has_named_params (umap_params a)" "has_named_params (umap_params b)"
    "has_named_params (umap_params c)" "has_named_params (umap_params d)"
    by (auto simp: agrees_with_def)
  from flow_params_named [OF this] show ?thesis by auto
next
  case False
  with assms have "umap_params a = P" "umap_params b = P" "umap_params c = P"
    "umap_params d = P"
    by (auto simp: agrees_with_def)
  from flow_params_same [OF this] show ?thesis by simp
qed

lemma flow_operands_aligned:
  assumes "Read (collectInfo S) = Some r" "Write (collectInfo S) = Some w"
    "MayWrite (collectInfo S) = Some mw" "Schedule (collectInfo S) = Some s"
  shows "flow_params r w mw s \<noteq> None" "flow_params w w r s \<noteq> None"
proof -
  let ?P = "space_params (getParamSpace S)"
  have r: "agrees_with ?P (Some r)" and w: "agrees_with ?P (Some w)"
    and s: "agrees_with ?P (Some s)"
    using collectInfo_agrees [of S] assms by simp_all
  have mw: "agrees_with ?P (Some mw)"
    using assms(3) by (auto simp: collectInfo_pairs(3) agrees_with_def isl_union_map_empty_def)
  show "flow_params r w mw s \<noteq> None" by (rule flow_params_agree [OF r w mw s])
  show "flow_params w w r s \<noteq> None" by (rule flow_params_agree [OF w w r s])
qed

section \<open>The reference primitive on a scop with named parameters\<close>

lemma isl_flow_pairs:
  "flow_params a b c d = Some ps \<Longrightarrow>
   isl_union_map_compute_flow isl_flow (Some a) (Some b) (Some c) (Some d) =
     \<lparr>must_dep = Some \<lparr>umap_params = ps, umap_pairs = must_pairs a b c d\<rparr>,
      may_dep = Some \<lparr>umap_params = ps, umap_pairs = may_pairs a b c d\<rparr>\<rparr>"
  by (simp add: isl_union_map_compute_flow_def isl_flow_def)

lemma named_runOnScop:
  assumes "named_scop S"
  shows "\<exists>r w mw s ps qs.
     Read (collectInfo S) = Some r \<and> Write (collectInfo S) = Some w \<and>
     MayWrite (collectInfo S) = Some mw \<and> Schedule (collectInfo S) = Some s \<and>
     has_named_params ps \<and> has_named_params qs \<and>
     RAW (runOnScop isl_flow S D) =
       Some \<lparr>umap_params = ps, umap_pairs = must_pairs r w mw s\<rparr> \<and>
     WAW (runOnScop isl_flow S D) =
       Some \<lparr>umap_params = qs, umap_pairs = must_pairs w w r s\<rparr> \<and>
     WAR (runOnScop isl_flow S D) =
       Some \<lparr>umap_params = qs, umap_pairs = may_pairs w w r s\<rparr>"
proof -
  from collectInfo_named [OF assms] obtain r w mw s where
    I: "Read (collectInfo S) = Some r" "Write (collectInfo S) = Some w"
    "MayWrite (collectInfo S) = Some mw" "Schedule (collectInfo S) = Some s"
    and nm: "has_named_params (umap_params r)" "has_named_params (umap_params w)"
    "has_named_params (umap_params mw)" "has_named_params (umap_params s)"
    by (auto simp: named_union_def)
  from flow_params_named [OF nm] obtain ps where
    ps: "flow_params r w mw s = Some ps" "has_named_params ps" by blast
  from flow_params_named [OF nm(2) nm(2) nm(1) nm(4)] obtain qs where
    qs: "flow_params w w r s = Some qs" "has_named_params qs" by blast
  show ?thesis
    using I ps qs
    by (simp add: runOnScop_fields first_flow_def second_flow_def isl_flow_pairs)
qed

lemma named_computed:
  assumes "named_scop S"
  shows "computed (runOnScop isl_flow S D)" "named_cache (runOnScop isl_flow S D)"
  using named_runOnScop [OF assms, of D]
  by (auto simp: computed_def named_cache_def)

lemma named_all_deps:
  assumes "named_scop S"
    and "Read (collectInfo S) = Some r" "Write (collectInfo S) = Some w"
    "MayWrite (collectInfo S) = Some mw" "Schedule (collectInfo S) = Some s"
  shows "all_deps (runOnScop isl_flow S D) =
     must_pairs r w mw s \<union> may_pairs w w r s \<union> must_pairs w w r s"
  using named_runOnScop [OF assms(1), of D] assms(2-)
  by (auto simp: all_deps_def selected_def)

lemma named_scop_schedules: "named_scop S \<Longrightarrow> named_schedules S Map.empty"
  by (simp add: named_scop_def named_schedules_def StmtScat_def)

lemma space_mismatch_iff:
  "space_mismatch S =
     (Read (collectInfo S) = None \<or> Write (collectInfo S) = None \<or>
      Schedule (collectInfo S) = None)"
  using space_mismatch_null_union [of S] no_mismatch_unions [of S]
  by (cases "space_mismatch S") simp_all

section \<open>The recurrence example\<close>

lemma time_pairsI:
  "(a, b) \<in> deps \<Longrightarrow> (a, ta) \<in> sched \<Longrightarrow> (b, tb) \<in> sched \<Longrightarrow> (ta, tb) \<in> time_pairs deps sched"
  by (auto simp: time_pairs_def)

lemma zero_nonpositive: "list_all (\<lambda>x. x = 0) d \<Longrightarrow> lex_nonpositive d"
  by (induction d) (simp_all add: lex_nonpositive_def)

lemma rec_named: "named_scop rec_scop"
  by (simp add: named_scop_def rec_scop_def rec_stmt_def rec_domain_def rec_read_def
      rec_write_def rec_sched_def rec_params_def has_named_params_def)

lemma rec_info:
  "\<exists>r w s. Read (collectInfo rec_scop) = Some r \<and> Write (collectInfo rec_scop) = Some w \<and>
     Schedule (collectInfo rec_scop) = Some s \<and>
     umap_params r = rec_params \<and> umap_params w = rec_params \<and> umap_params s = rec_params"
  by (simp add: collectInfo_def collectStmt_def collectAccess_def Let_def rec_scop_def
      rec_stmt_def isRead_def ptr_bind2_def isl_map_intersect_domain_def rec_read_def
      rec_write_def rec_domain_def rec_sched_def isl_union_map_empty_def add_map_same)

lemma rec_reads:
  "accesses_of isRead (stmts rec_scop) =
     {(p, q). \<exists>e i. p = Pt e ''S'' [i] \<and> q = Pt e ''A'' [i - 1] \<and> 0 \<le> i \<and> i < e ''N''}"
  by (auto simp: accesses_of_def acc_pairs_def rec_scop_def rec_stmt_def
      isRead_def rec_read_def rec_domain_def)

lemma rec_writes:
  "accesses_of (\<lambda>m. \<not> isRead m) (stmts rec_scop) =
     {(p, q). \<exists>e i. p = Pt e ''S'' [i] \<and> q = Pt e ''A'' [i] \<and> 0 \<le> i \<and> i < e ''N''}"
  by (auto simp: accesses_of_def acc_pairs_def rec_scop_def rec_stmt_def
      isRead_def rec_write_def rec_domain_def)

lemma rec_scatterings_current:
  "scatterings_of Map.empty (stmts rec_scop) =
     {(p, q). \<exists>e i. p = Pt e ''S'' [i] \<and> q = Pt e ''scattering'' [i]}"
  by (simp add: scatterings_of_def StmtScat_def rec_scop_def rec_stmt_def rec_sched_def)

text \<open>The dependences of the recurrence, from its reads, writes and schedule alone.\<close>

lemma rec_flow:
  assumes r: "umap_pairs r =
      {(p, q). \<exists>e i. p = Pt e ''S'' [i] \<and> q = Pt e ''A'' [i - 1] \<and> 0 \<le> i \<and> i < e ''N''}"
    and w: "umap_pairs w =
      {(p, q). \<exists>e i. p = Pt e ''S'' [i] \<and> q = Pt e ''A'' [i] \<and> 0 \<le> i \<and> i < e ''N''}"
    and mw: "umap_pairs mw = {}"
    and s: "umap_pairs s = {(p, q). \<exists>e i. p = Pt e ''S'' [i] \<and> q = Pt e ''scattering'' [i]}"
  shows "must_pairs r w mw s =
      {(p, q). \<exists>e i. p = Pt e ''S'' [i - 1] \<and> q = Pt e ''S'' [i] \<and> 1 \<le> i \<and> i < e ''N''}"
    and "may_pairs r w mw s = {}"
    and "must_pairs w w r s = {}"
    and "may_pairs w w r s = {}"
proof -
  have before: "scheduled_before s a b =
      (\<exists>e i e' j. a = Pt e ''S'' [i] \<and> b = Pt e' ''S'' [j] \<and> i < j)" for a b
    unfolding scheduled_before_def s by (auto simp: space_of_def)
  show "must_pairs r w mw s =
      {(p, q). \<exists>e i. p = Pt e ''S'' [i - 1] \<and> q = Pt e ''S'' [i] \<and> 1 \<le> i \<and> i < e ''N''}"
    unfolding must_pairs_def accessed_between_def before r w mw by auto
  show "may_pairs r w mw s = {}"
    unfolding may_pairs_def accessed_between_def before r w mw by auto
  show "must_pairs w w r s = {}"
    unfolding must_pairs_def accessed_between_def before r w mw by auto
  show "may_pairs w w r s = {}"
    unfolding may_pairs_def accessed_between_def before r w mw by auto
qed

lemma rec_cache:
  "RAW rec_deps = Some \<lparr>umap_params = rec_params, umap_pairs =
      {(p, q). \<exists>e i. p = Pt e ''S'' [i - 1] \<and> q = Pt e ''S'' [i] \<and> 1 \<le> i \<and> i < e ''N''}\<rparr>"
  "WAW rec_deps = Some \<lparr>umap_params = rec_params, umap_pairs = {}\<rparr>"
  "WAR rec_deps = Some \<lparr>umap_params = rec_params, umap_pairs = {}\<rparr>"
proof -
  from rec_info obtain r w s where
    I: "Read (collectInfo rec_scop) = Some r" "Write (collectInfo rec_scop) = Some w"
    "Schedule (collectInfo rec_scop) = Some s"
    and ps: "umap_params r = rec_params" "umap_params w = rec_params"
    "umap_params s = rec_params"
    by blast
  let ?mw = "isl_union_map_empty (getParamSpace rec_scop)"
  have mw: "MayWrite (collectInfo rec_scop) = Some ?mw" "umap_params ?mw = rec_params"
    "umap_pairs ?mw = {}"
    by (simp_all add: collectInfo_pairs(3) isl_union_map_empty_def rec_scop_def)
  note fl = rec_flow [OF collectInfo_pairs(1) [OF I(1), unfolded rec_reads]
      collectInfo_pairs(2) [OF I(2), unfolded rec_writes] mw(3)
      collectInfo_pairs(4) [OF I(3), unfolded rec_scatterings_current]]
  have f1: "flow_params r w ?mw s = Some rec_params"
    by (rule flow_params_same [OF ps(1) ps(2) mw(2) ps(3)])
  have f2: "flow_params w w r s = Some rec_params"
    by (rule flow_params_same [OF ps(2) ps(2) ps(1) ps(3)])
  show "RAW rec_deps = Some \<lparr>umap_params = rec_params, umap_pairs =
      {(p, q). \<exists>e i. p = Pt e ''S'' [i - 1] \<and> q = Pt e ''S'' [i] \<and> 1 \<le> i \<and> i < e ''N''}\<rparr>"
    by (simp add: rec_deps_def runOnScop_fields first_flow_def I mw(1) isl_flow_pairs [OF f1] fl)
  show "WAW rec_deps = Some \<lparr>umap_params = rec_params, umap_pairs = {}\<rparr>"
    by (simp add: rec_deps_def runOnScop_fields second_flow_def I isl_flow_pairs [OF f2] fl)
  show "WAR rec_deps = Some \<lparr>umap_params = rec_params, umap_pairs = {}\<rparr>"
    by (simp add: rec_deps_def runOnScop_fields second_flow_def I isl_flow_pairs [OF f2] fl)
qed

lemma rec_deps_computed: "computed rec_deps"
  by (simp add: computed_def rec_cache)

lemma rec_deps_named: "named_cache rec_deps"
  by (simp add: named_cache_def rec_cache rec_params_def has_named_params_def)

lemma rec_all_deps:
  "all_deps rec_deps =
     {(p, q). \<exists>e i. p = Pt e ''S'' [i - 1] \<and> q = Pt e ''S'' [i] \<and> 1 \<le> i \<and> i < e ''N''}"
  by (simp add: all_deps_def selected_def rec_cache)

lemma rec_dep: "(Pt (at_N 2) ''S'' [0], Pt (at_N 2) ''S'' [1]) \<in> all_deps rec_deps"
  unfolding rec_all_deps
  by (simp add: at_N_def)

lemma rec_scatterings_reversed:
  "scatterings_of rec_reversed (stmts rec_scop) =
     {(p, q). \<exists>e i. p = Pt e ''S'' [i] \<and> q = Pt e ''scattering'' [e ''N'' - 1 - i]}"
  by (simp add: scatterings_of_def StmtScat_def rec_scop_def rec_stmt_def rec_reversed_def)

lemma rec_scatterings_reversed_M:
  "scatterings_of rec_reversed_M (stmts rec_scop) =
     {(p, q). \<exists>e i. p = Pt e ''S'' [i] \<and> q = Pt e ''scattering'' [e ''M'' - 1 - i]}"
  by (simp add: scatterings_of_def StmtScat_def rec_scop_def rec_stmt_def rec_reversed_M_def)

lemma rec_scatterings_constant:
  "scatterings_of rec_constant (stmts rec_scop) =
     {(p, q). \<exists>e i. p = Pt e ''S'' [i] \<and> q = Pt e ''scattering'' [0]}"
  by (simp add: scatterings_of_def StmtScat_def rec_scop_def rec_stmt_def rec_constant_def)

lemma rec_uniform:
  "uniform_time rec_scop Map.empty" "uniform_time rec_scop rec_reversed"
  "uniform_time rec_scop rec_reversed_M" "uniform_time rec_scop rec_constant"
  by (auto simp: uniform_time_def StmtScat_def rec_scop_def rec_stmt_def rec_sched_def
      rec_reversed_def rec_reversed_M_def rec_constant_def space_of_def)

lemma rec_named_schedules:
  "named_schedules rec_scop Map.empty" "named_schedules rec_scop rec_reversed"
  "named_schedules rec_scop rec_reversed_M" "named_schedules rec_scop rec_constant"
  by (simp_all add: named_schedules_def StmtScat_def rec_scop_def rec_stmt_def rec_sched_def
      rec_reversed_def rec_reversed_M_def rec_constant_def rec_params_def has_named_params_def)

lemma rec_single_valued: "single_valued_schedule rec_scop"
  unfolding single_valued_schedule_def rec_scatterings_current by auto

lemma rec_deltas_reversed: "time_deltas rec_deps rec_scop rec_reversed = {[- 1]}"
proof -
  have "(Pt (at_N 2) ''scattering'' [1], Pt (at_N 2) ''scattering'' [0])
      \<in> time_pairs (all_deps rec_deps) (scatterings_of rec_reversed (stmts rec_scop))"
    by (rule time_pairsI [OF rec_dep]) (simp_all add: rec_scatterings_reversed at_N_def)
  then have "vec_sub (coords (Pt (at_N 2) ''scattering'' [0]))
                     (coords (Pt (at_N 2) ''scattering'' [1]))
      \<in> time_deltas rec_deps rec_scop rec_reversed"
    unfolding time_deltas_def by (rule rev_image_eqI) simp
  moreover have "time_deltas rec_deps rec_scop rec_reversed \<subseteq> {[- 1]}"
    unfolding time_deltas_def time_pairs_def rec_all_deps rec_scatterings_reversed
    by auto
  ultimately show ?thesis by auto
qed

lemma rec_deltas_reversed_M: "time_deltas rec_deps rec_scop rec_reversed_M = {[- 1]}"
proof -
  have "(Pt (at_N 2) ''scattering'' [1], Pt (at_N 2) ''scattering'' [0])
      \<in> time_pairs (all_deps rec_deps) (scatterings_of rec_reversed_M (stmts rec_scop))"
    by (rule time_pairsI [OF rec_dep]) (simp_all add: rec_scatterings_reversed_M at_N_def)
  then have "vec_sub (coords (Pt (at_N 2) ''scattering'' [0]))
                     (coords (Pt (at_N 2) ''scattering'' [1]))
      \<in> time_deltas rec_deps rec_scop rec_reversed_M"
    unfolding time_deltas_def by (rule rev_image_eqI) simp
  moreover have "time_deltas rec_deps rec_scop rec_reversed_M \<subseteq> {[- 1]}"
    unfolding time_deltas_def time_pairs_def rec_all_deps rec_scatterings_reversed_M
    by auto
  ultimately show ?thesis by auto
qed

lemma rec_deltas_current: "time_deltas rec_deps rec_scop Map.empty = {[1]}"
proof -
  have "(Pt (at_N 2) ''scattering'' [0], Pt (at_N 2) ''scattering'' [1])
      \<in> time_pairs (all_deps rec_deps) (scatterings_of Map.empty (stmts rec_scop))"
    by (rule time_pairsI [OF rec_dep]) (simp_all add: rec_scatterings_current)
  then have "vec_sub (coords (Pt (at_N 2) ''scattering'' [1]))
                     (coords (Pt (at_N 2) ''scattering'' [0]))
      \<in> time_deltas rec_deps rec_scop Map.empty"
    unfolding time_deltas_def by (rule rev_image_eqI) simp
  moreover have "time_deltas rec_deps rec_scop Map.empty \<subseteq> {[1]}"
    unfolding time_deltas_def time_pairs_def rec_all_deps rec_scatterings_current
    by auto
  ultimately show ?thesis by auto
qed

lemma rec_deltas_constant: "time_deltas rec_deps rec_scop rec_constant = {[0]}"
proof -
  have "(Pt (at_N 2) ''scattering'' [0], Pt (at_N 2) ''scattering'' [0])
      \<in> time_pairs (all_deps rec_deps) (scatterings_of rec_constant (stmts rec_scop))"
    by (rule time_pairsI [OF rec_dep]) (simp_all add: rec_scatterings_constant)
  then have "vec_sub (coords (Pt (at_N 2) ''scattering'' [0]))
                     (coords (Pt (at_N 2) ''scattering'' [0]))
      \<in> time_deltas rec_deps rec_scop rec_constant"
    unfolding time_deltas_def by (rule rev_image_eqI) simp
  moreover have "time_deltas rec_deps rec_scop rec_constant \<subseteq> {[0]}"
    unfolding time_deltas_def time_pairs_def rec_all_deps rec_scatterings_constant
    by auto
  ultimately show ?thesis by auto
qed

lemma rec_reversed_illegal: "\<not> isValidScattering False rec_deps rec_scop rec_reversed"
  by (simp add: isValidScattering_iff [OF rec_deps_computed rec_named_schedules(2) rec_uniform(2)]
      rec_deltas_reversed lex_nonpositive_def)

lemma rec_reversed_M_illegal: "\<not> isValidScattering False rec_deps rec_scop rec_reversed_M"
  by (simp add: isValidScattering_iff [OF rec_deps_computed rec_named_schedules(3) rec_uniform(3)]
      rec_deltas_reversed_M lex_nonpositive_def)

lemma rec_truncated:
  "truncated 1 (stmts rec_scop) =
     {(p, q). \<exists>e i. p = Pt e ''S'' [i] \<and> q = Pt e [] [i]}"
  by (auto simp: truncated_def rec_scop_def rec_stmt_def rec_sched_def image_iff)

lemma rec_deep_enough: "deep_enough 1 rec_scop"
  by (auto simp: deep_enough_def wf_scattering_def getNumScattering_def rec_scop_def
      rec_stmt_def rec_sched_def)

lemma rec_depth_deltas: "depth_deltas rec_deps rec_scop rec_loop 1 = {[1]}"
proof -
  have "(Pt (at_N 2) [] [0], Pt (at_N 2) [] [1])
      \<in> time_pairs (all_deps rec_deps) (truncated 1 (stmts rec_scop))"
    by (rule time_pairsI [OF rec_dep]) (simp_all add: rec_truncated [unfolded One_nat_def])
  then have "(Pt (at_N 2) [] [0], Pt (at_N 2) [] [1])
      \<in> {(ta, tb) \<in> time_pairs (all_deps rec_deps) (truncated 1 (stmts rec_scop)).
           ta \<in> set_points rec_loop \<and> tb \<in> set_points rec_loop}"
    by (simp add: rec_loop_def at_N_def)
  then have "vec_sub (coords (Pt (at_N 2) [] [1])) (coords (Pt (at_N 2) [] [0]))
      \<in> depth_deltas rec_deps rec_scop rec_loop 1"
    unfolding depth_deltas_def by (rule rev_image_eqI) simp
  moreover have "depth_deltas rec_deps rec_scop rec_loop 1 \<subseteq> {[1]}"
    unfolding depth_deltas_def time_pairs_def rec_all_deps rec_truncated
    by auto
  ultimately show ?thesis by auto
qed

lemma rec_depth_deltas_M: "depth_deltas rec_deps rec_scop rec_loop_M 1 = {[1]}"
proof -
  have "(Pt (at_N 2) [] [0], Pt (at_N 2) [] [1])
      \<in> time_pairs (all_deps rec_deps) (truncated 1 (stmts rec_scop))"
    by (rule time_pairsI [OF rec_dep]) (simp_all add: rec_truncated [unfolded One_nat_def])
  then have "(Pt (at_N 2) [] [0], Pt (at_N 2) [] [1])
      \<in> {(ta, tb) \<in> time_pairs (all_deps rec_deps) (truncated 1 (stmts rec_scop)).
           ta \<in> set_points rec_loop_M \<and> tb \<in> set_points rec_loop_M}"
    by (simp add: rec_loop_M_def at_N_def)
  then have "vec_sub (coords (Pt (at_N 2) [] [1])) (coords (Pt (at_N 2) [] [0]))
      \<in> depth_deltas rec_deps rec_scop rec_loop_M 1"
    unfolding depth_deltas_def by (rule rev_image_eqI) simp
  moreover have "depth_deltas rec_deps rec_scop rec_loop_M 1 \<subseteq> {[1]}"
    unfolding depth_deltas_def time_pairs_def rec_all_deps rec_truncated
    by auto
  ultimately show ?thesis by auto
qed

lemma rec_instance_deltas: "instance_deltas rec_deps rec_scop rec_domain 1 = {[1]}"
proof -
  have "(Pt (at_N 2) ''S'' [0], Pt (at_N 2) ''S'' [1])
      \<in> {(a, b) \<in> all_deps rec_deps. a \<in> set_points rec_domain \<and> b \<in> set_points rec_domain}"
    using rec_dep by (simp add: rec_domain_def at_N_def)
  then have "(Pt (at_N 2) [] [0], Pt (at_N 2) [] [1])
      \<in> time_pairs {(a, b) \<in> all_deps rec_deps.
           a \<in> set_points rec_domain \<and> b \<in> set_points rec_domain}
         (truncated 1 (stmts rec_scop))"
    by (rule time_pairsI) (simp_all add: rec_truncated [unfolded One_nat_def])
  then have "vec_sub (coords (Pt (at_N 2) [] [1])) (coords (Pt (at_N 2) [] [0]))
      \<in> instance_deltas rec_deps rec_scop rec_domain 1"
    unfolding instance_deltas_def by (rule rev_image_eqI) simp
  moreover have "instance_deltas rec_deps rec_scop rec_domain 1 \<subseteq> {[1]}"
    unfolding instance_deltas_def time_pairs_def rec_all_deps rec_truncated
    by auto
  ultimately show ?thesis by auto
qed

lemma rec_loop_not_parallel: "\<not> isParallelDimension rec_deps rec_scop rec_loop 1"
proof -
  have "isParallelDimension rec_deps rec_scop rec_loop 1 =
      (\<forall>d \<in> depth_deltas rec_deps rec_scop rec_loop 1. \<not> carried_by_last d)"
    by (rule isParallelDimension_iff [OF rec_deps_computed _ _ rec_deep_enough
          rec_named_schedules(1)]) simp_all
  also have "\<dots> = False"
    unfolding rec_depth_deltas by (simp add: carried_by_last_def zero_but_last_def)
  finally show ?thesis by simp
qed

lemma rec_loop_M_not_parallel: "\<not> isParallelDimension rec_deps rec_scop rec_loop_M 1"
proof -
  have "isParallelDimension rec_deps rec_scop rec_loop_M 1 =
      (\<forall>d \<in> depth_deltas rec_deps rec_scop rec_loop_M 1. \<not> carried_by_last d)"
    by (rule isParallelDimension_iff [OF rec_deps_computed _ _ rec_deep_enough
          rec_named_schedules(1)]) simp_all
  also have "\<dots> = False"
    unfolding rec_depth_deltas_M by (simp add: carried_by_last_def zero_but_last_def)
  finally show ?thesis by simp
qed

lemma rec_domain_parallel: "isParallelDimension rec_deps rec_scop rec_domain 1"
  by (rule isParallelDimension_no_time_points [OF rec_deps_computed _ _ rec_deep_enough
        rec_named_schedules(1)]) (auto simp: rec_domain_def)

section \<open>The loop nest example\<close>

lemma nest_named: "named_scop nest_scop"
  by (simp add: named_scop_def nest_scop_def nest_stmt_def nest_domain_def nest_read_def
      nest_write_def nest_sched_def rec_params_def has_named_params_def)

lemma nest_info:
  "\<exists>r w s. Read (collectInfo nest_scop) = Some r \<and> Write (collectInfo nest_scop) = Some w \<and>
     Schedule (collectInfo nest_scop) = Some s \<and>
     umap_params r = rec_params \<and> umap_params w = rec_params \<and> umap_params s = rec_params"
  by (simp add: collectInfo_def collectStmt_def collectAccess_def Let_def nest_scop_def
      nest_stmt_def isRead_def ptr_bind2_def isl_map_intersect_domain_def nest_read_def
      nest_write_def nest_domain_def nest_sched_def isl_union_map_empty_def add_map_same)

lemma nest_reads:
  "accesses_of isRead (stmts nest_scop) =
     {(p, q). \<exists>e i j. p = Pt e ''S'' [i, j] \<and> q = Pt e ''A'' [i - 1, j] \<and>
        0 \<le> i \<and> i < e ''N'' \<and> 0 \<le> j \<and> j < e ''N''}"
  by (auto simp: accesses_of_def acc_pairs_def nest_scop_def nest_stmt_def
      isRead_def nest_read_def nest_domain_def)

lemma nest_writes:
  "accesses_of (\<lambda>m. \<not> isRead m) (stmts nest_scop) =
     {(p, q). \<exists>e i j. p = Pt e ''S'' [i, j] \<and> q = Pt e ''A'' [i, j] \<and>
        0 \<le> i \<and> i < e ''N'' \<and> 0 \<le> j \<and> j < e ''N''}"
  by (auto simp: accesses_of_def acc_pairs_def nest_scop_def nest_stmt_def
      isRead_def nest_write_def nest_domain_def)

lemma nest_scatterings:
  "scatterings_of Map.empty (stmts nest_scop) =
     {(p, q). \<exists>e i j. p = Pt e ''S'' [i, j] \<and> q = Pt e ''scattering'' [i, j]}"
  by (simp add: scatterings_of_def StmtScat_def nest_scop_def nest_stmt_def nest_sched_def)

lemma nest_flow:
  assumes r: "umap_pairs r =
      {(p, q). \<exists>e i j. p = Pt e ''S'' [i, j] \<and> q = Pt e ''A'' [i - 1, j] \<and>
        0 \<le> i \<and> i < e ''N'' \<and> 0 \<le> j \<and> j < e ''N''}"
    and w: "umap_pairs w =
      {(p, q). \<exists>e i j. p = Pt e ''S'' [i, j] \<and> q = Pt e ''A'' [i, j] \<and>
        0 \<le> i \<and> i < e ''N'' \<and> 0 \<le> j \<and> j < e ''N''}"
    and mw: "umap_pairs mw = {}"
    and s: "umap_pairs s =
      {(p, q). \<exists>e i j. p = Pt e ''S'' [i, j] \<and> q = Pt e ''scattering'' [i, j]}"
  shows "must_pairs r w mw s =
      {(p, q). \<exists>e i j. p = Pt e ''S'' [i - 1, j] \<and> q = Pt e ''S'' [i, j] \<and>
        1 \<le> i \<and> i < e ''N'' \<and> 0 \<le> j \<and> j < e ''N''}"
    and "may_pairs r w mw s = {}"
    and "must_pairs w w r s = {}"
    and "may_pairs w w r s = {}"
proof -
  have before: "scheduled_before s a b =
      (\<exists>e i j e' k l. a = Pt e ''S'' [i, j] \<and> b = Pt e' ''S'' [k, l] \<and>
        (i < k \<or> (i = k \<and> j < l)))" for a b
    unfolding scheduled_before_def s by (auto simp: space_of_def)
  show "must_pairs r w mw s =
      {(p, q). \<exists>e i j. p = Pt e ''S'' [i - 1, j] \<and> q = Pt e ''S'' [i, j] \<and>
        1 \<le> i \<and> i < e ''N'' \<and> 0 \<le> j \<and> j < e ''N''}"
    unfolding must_pairs_def accessed_between_def before r w mw by auto
  show "may_pairs r w mw s = {}"
    unfolding may_pairs_def accessed_between_def before r w mw by auto
  show "must_pairs w w r s = {}"
    unfolding must_pairs_def accessed_between_def before r w mw by auto
  show "may_pairs w w r s = {}"
    unfolding may_pairs_def accessed_between_def before r w mw by auto
qed

lemma nest_cache:
  "RAW nest_deps = Some \<lparr>umap_params = rec_params, umap_pairs =
      {(p, q). \<exists>e i j. p = Pt e ''S'' [i - 1, j] \<and> q = Pt e ''S'' [i, j] \<and>
        1 \<le> i \<and> i < e ''N'' \<and> 0 \<le> j \<and> j < e ''N''}\<rparr>"
  "WAW nest_deps = Some \<lparr>umap_params = rec_params, umap_pairs = {}\<rparr>"
  "WAR nest_deps = Some \<lparr>umap_params = rec_params, umap_pairs = {}\<rparr>"
proof -
  from nest_info obtain r w s where
    I: "Read (collectInfo nest_scop) = Some r" "Write (collectInfo nest_scop) = Some w"
    "Schedule (collectInfo nest_scop) = Some s"
    and ps: "umap_params r = rec_params" "umap_params w = rec_params"
    "umap_params s = rec_params"
    by blast
  let ?mw = "isl_union_map_empty (getParamSpace nest_scop)"
  have mw: "MayWrite (collectInfo nest_scop) = Some ?mw" "umap_params ?mw = rec_params"
    "umap_pairs ?mw = {}"
    by (simp_all add: collectInfo_pairs(3) isl_union_map_empty_def nest_scop_def)
  note fl = nest_flow [OF collectInfo_pairs(1) [OF I(1), unfolded nest_reads]
      collectInfo_pairs(2) [OF I(2), unfolded nest_writes] mw(3)
      collectInfo_pairs(4) [OF I(3), unfolded nest_scatterings]]
  have f1: "flow_params r w ?mw s = Some rec_params"
    by (rule flow_params_same [OF ps(1) ps(2) mw(2) ps(3)])
  have f2: "flow_params w w r s = Some rec_params"
    by (rule flow_params_same [OF ps(2) ps(2) ps(1) ps(3)])
  show "RAW nest_deps = Some \<lparr>umap_params = rec_params, umap_pairs =
      {(p, q). \<exists>e i j. p = Pt e ''S'' [i - 1, j] \<and> q = Pt e ''S'' [i, j] \<and>
        1 \<le> i \<and> i < e ''N'' \<and> 0 \<le> j \<and> j < e ''N''}\<rparr>"
    by (simp add: nest_deps_def runOnScop_fields first_flow_def I mw(1) isl_flow_pairs [OF f1] fl)
  show "WAW nest_deps = Some \<lparr>umap_params = rec_params, umap_pairs = {}\<rparr>"
    by (simp add: nest_deps_def runOnScop_fields second_flow_def I isl_flow_pairs [OF f2] fl)
  show "WAR nest_deps = Some \<lparr>umap_params = rec_params, umap_pairs = {}\<rparr>"
    by (simp add: nest_deps_def runOnScop_fields second_flow_def I isl_flow_pairs [OF f2] fl)
qed

lemma nest_deps_computed: "computed nest_deps"
  by (simp add: computed_def nest_cache)

lemma nest_all_deps:
  "all_deps nest_deps =
     {(p, q). \<exists>e i j. p = Pt e ''S'' [i - 1, j] \<and> q = Pt e ''S'' [i, j] \<and>
        1 \<le> i \<and> i < e ''N'' \<and> 0 \<le> j \<and> j < e ''N''}"
  by (simp add: all_deps_def selected_def nest_cache)

lemma nest_dep: "(Pt (at_N 2) ''S'' [0, 0], Pt (at_N 2) ''S'' [1, 0]) \<in> all_deps nest_deps"
  unfolding nest_all_deps
  by (simp add: at_N_def)

lemma nest_named_schedules: "named_schedules nest_scop Map.empty"
  by (rule named_scop_schedules [OF nest_named])

lemma nest_truncated:
  "truncated 2 (stmts nest_scop) =
     {(p, q). \<exists>e i j. p = Pt e ''S'' [i, j] \<and> q = Pt e [] [i, j]}"
  by (auto simp: truncated_def nest_scop_def nest_stmt_def nest_sched_def image_iff)

lemma nest_deep_enough: "deep_enough 2 nest_scop"
  by (auto simp: deep_enough_def wf_scattering_def getNumScattering_def nest_scop_def
      nest_stmt_def nest_sched_def)

lemma nest_depth_deltas: "depth_deltas nest_deps nest_scop nest_loop 2 = {[1, 0]}"
proof -
  have "(Pt (at_N 2) [] [0, 0], Pt (at_N 2) [] [1, 0])
      \<in> time_pairs (all_deps nest_deps) (truncated 2 (stmts nest_scop))"
    by (rule time_pairsI [OF nest_dep]) (simp_all add: nest_truncated)
  then have "(Pt (at_N 2) [] [0, 0], Pt (at_N 2) [] [1, 0])
      \<in> {(ta, tb) \<in> time_pairs (all_deps nest_deps) (truncated 2 (stmts nest_scop)).
           ta \<in> set_points nest_loop \<and> tb \<in> set_points nest_loop}"
    by (simp add: nest_loop_def at_N_def)
  then have "vec_sub (coords (Pt (at_N 2) [] [1, 0])) (coords (Pt (at_N 2) [] [0, 0]))
      \<in> depth_deltas nest_deps nest_scop nest_loop 2"
    unfolding depth_deltas_def by (rule rev_image_eqI) simp
  moreover have "depth_deltas nest_deps nest_scop nest_loop 2 \<subseteq> {[1, 0]}"
    unfolding depth_deltas_def time_pairs_def nest_all_deps nest_truncated
    by auto
  ultimately show ?thesis by auto
qed

lemma nest_instance_deltas: "instance_deltas nest_deps nest_scop nest_domain 2 = {[1, 0]}"
proof -
  have "(Pt (at_N 2) ''S'' [0, 0], Pt (at_N 2) ''S'' [1, 0])
      \<in> {(a, b) \<in> all_deps nest_deps.
           a \<in> set_points nest_domain \<and> b \<in> set_points nest_domain}"
    using nest_dep by (simp add: nest_domain_def at_N_def)
  then have "(Pt (at_N 2) [] [0, 0], Pt (at_N 2) [] [1, 0])
      \<in> time_pairs {(a, b) \<in> all_deps nest_deps.
           a \<in> set_points nest_domain \<and> b \<in> set_points nest_domain}
         (truncated 2 (stmts nest_scop))"
    by (rule time_pairsI) (simp_all add: nest_truncated)
  then have "vec_sub (coords (Pt (at_N 2) [] [1, 0])) (coords (Pt (at_N 2) [] [0, 0]))
      \<in> instance_deltas nest_deps nest_scop nest_domain 2"
    unfolding instance_deltas_def by (rule rev_image_eqI) simp
  moreover have "instance_deltas nest_deps nest_scop nest_domain 2 \<subseteq> {[1, 0]}"
    unfolding instance_deltas_def time_pairs_def nest_all_deps nest_truncated
    by auto
  ultimately show ?thesis by auto
qed

lemma nest_inner_parallel: "isParallelDimension nest_deps nest_scop nest_loop 2"
proof -
  have "isParallelDimension nest_deps nest_scop nest_loop 2 =
      (\<forall>d \<in> depth_deltas nest_deps nest_scop nest_loop 2. \<not> carried_by_last d)"
    by (rule isParallelDimension_iff [OF nest_deps_computed _ _ nest_deep_enough
          nest_named_schedules]) simp_all
  also have "\<dots> = True"
    unfolding nest_depth_deltas by (simp add: carried_by_last_def zero_but_last_def)
  finally show ?thesis by simp
qed

lemma nest_domain_parallel: "isParallelDimension nest_deps nest_scop nest_domain 2"
  by (rule isParallelDimension_no_time_points [OF nest_deps_computed _ _ nest_deep_enough
        nest_named_schedules]) (auto simp: nest_domain_def)

lemma nest_deps_named: "named_cache nest_deps"
  by (simp add: named_cache_def nest_cache rec_params_def has_named_params_def)

section \<open>The recurrence after an initialisation\<close>

lemma two_named: "named_scop two_scop"
  by (simp add: named_scop_def two_scop_def init_stmt_def rec_stmt_def rec_domain_def
      rec_read_def rec_write_def rec_sched_def rec_params_def has_named_params_def)

lemma two_info:
  "\<exists>r w s. Read (collectInfo two_scop) = Some r \<and> Write (collectInfo two_scop) = Some w \<and>
     Schedule (collectInfo two_scop) = Some s \<and>
     umap_params r = rec_params \<and> umap_params w = rec_params \<and> umap_params s = rec_params"
  by (simp add: collectInfo_def collectStmt_def collectAccess_def Let_def two_scop_def
      init_stmt_def rec_stmt_def isRead_def ptr_bind2_def isl_map_intersect_domain_def
      rec_read_def rec_write_def rec_domain_def rec_sched_def isl_union_map_empty_def
      add_map_same)

lemma two_reads:
  "accesses_of isRead (stmts two_scop) =
     {(p, q). \<exists>e i. p = Pt e ''S'' [i] \<and> q = Pt e ''A'' [i - 1] \<and> 0 \<le> i \<and> i < e ''N''}"
  by (auto simp: accesses_of_def acc_pairs_def two_scop_def init_stmt_def rec_stmt_def
      isRead_def rec_read_def rec_domain_def)

lemma two_writes:
  "accesses_of (\<lambda>m. \<not> isRead m) (stmts two_scop) =
     {(p, q). \<exists>e i. p = Pt e ''S'' [i] \<and> q = Pt e ''A'' [i] \<and> 0 \<le> i \<and> i < e ''N''} \<union>
     {(p, q). \<exists>e. p = Pt e ''T'' [0] \<and> q = Pt e ''B'' [0]}"
  by (auto simp: accesses_of_def acc_pairs_def two_scop_def init_stmt_def rec_stmt_def
      isRead_def rec_write_def rec_domain_def)

lemma two_scatterings_current:
  "scatterings_of Map.empty (stmts two_scop) =
     {(p, q). \<exists>e i. p = Pt e ''S'' [i] \<and> q = Pt e ''scattering'' [i]} \<union>
     {(p, q). \<exists>e. p = Pt e ''T'' [0] \<and> q = Pt e ''scattering'' [- 1]}"
  by (auto simp: scatterings_of_def StmtScat_def two_scop_def init_stmt_def rec_stmt_def
      rec_sched_def)

lemma two_scatterings_elsewhere:
  "scatterings_of rec_elsewhere (stmts two_scop) =
     {(p, q). \<exists>e i. p = Pt e ''S'' [i] \<and> q = Pt e ''reversed'' [e ''N'' - 1 - i]} \<union>
     {(p, q). \<exists>e. p = Pt e ''T'' [0] \<and> q = Pt e ''scattering'' [- 1]}"
  by (auto simp: scatterings_of_def StmtScat_def two_scop_def init_stmt_def rec_stmt_def
      rec_elsewhere_def)

lemma two_flow:
  assumes r: "umap_pairs r =
      {(p, q). \<exists>e i. p = Pt e ''S'' [i] \<and> q = Pt e ''A'' [i - 1] \<and> 0 \<le> i \<and> i < e ''N''}"
    and w: "umap_pairs w =
      {(p, q). \<exists>e i. p = Pt e ''S'' [i] \<and> q = Pt e ''A'' [i] \<and> 0 \<le> i \<and> i < e ''N''} \<union>
      {(p, q). \<exists>e. p = Pt e ''T'' [0] \<and> q = Pt e ''B'' [0]}"
    and mw: "umap_pairs mw = {}"
    and s: "umap_pairs s =
      {(p, q). \<exists>e i. p = Pt e ''S'' [i] \<and> q = Pt e ''scattering'' [i]} \<union>
      {(p, q). \<exists>e. p = Pt e ''T'' [0] \<and> q = Pt e ''scattering'' [- 1]}"
  shows "must_pairs r w mw s =
      {(p, q). \<exists>e i. p = Pt e ''S'' [i - 1] \<and> q = Pt e ''S'' [i] \<and> 1 \<le> i \<and> i < e ''N''}"
    and "may_pairs r w mw s = {}"
    and "must_pairs w w r s = {}"
    and "may_pairs w w r s = {}"
proof -
  have before: "scheduled_before s a b \<Longrightarrow> a \<noteq> b" for a b
    unfolding scheduled_before_def s by (auto simp: space_of_def)
  have beforeS: "scheduled_before s (Pt e ''S'' [i]) (Pt e' ''S'' [j]) = (i < j)" for e i e' j
    unfolding scheduled_before_def s by (auto simp: space_of_def)
  have m: "(a, b) \<in> must_pairs r w mw s \<Longrightarrow>
      \<exists>e i. a = Pt e ''S'' [i - 1] \<and> b = Pt e ''S'' [i] \<and> 1 \<le> i \<and> i < e ''N''" for a b
    unfolding must_pairs_def r w mw by (auto simp: beforeS)
  have "(Pt e ''S'' [i - 1], Pt e ''S'' [i]) \<in> must_pairs r w mw s"
    if "1 \<le> i" "i < e ''N''" for e i
  proof -
    have "(Pt e ''S'' [i], Pt e ''A'' [i - 1]) \<in> umap_pairs r"
      using that by (simp add: r)
    moreover have "(Pt e ''S'' [i - 1], Pt e ''A'' [i - 1]) \<in> umap_pairs w"
      using that by (simp add: w)
    moreover have "scheduled_before s (Pt e ''S'' [i - 1]) (Pt e ''S'' [i])"
      by (simp add: beforeS)
    moreover have "\<not> accessed_between w s (Pt e ''A'' [i - 1]) (Pt e ''S'' [i - 1]) (Pt e ''S'' [i])"
      unfolding accessed_between_def w using before by auto
    moreover have "\<not> accessed_between mw s (Pt e ''A'' [i - 1]) (Pt e ''S'' [i - 1]) (Pt e ''S'' [i])"
      unfolding accessed_between_def mw by simp
    ultimately show ?thesis
      unfolding must_pairs_def by blast
  qed
  with m show "must_pairs r w mw s =
      {(p, q). \<exists>e i. p = Pt e ''S'' [i - 1] \<and> q = Pt e ''S'' [i] \<and> 1 \<le> i \<and> i < e ''N''}"
    by auto
  show "may_pairs r w mw s = {}"
    unfolding may_pairs_def accessed_between_def mw by auto
  show "must_pairs w w r s = {}"
    unfolding must_pairs_def w using before by auto
  show "may_pairs w w r s = {}"
    unfolding may_pairs_def accessed_between_def r w using before by (auto simp: beforeS)
qed

lemma two_cache:
  "RAW two_deps = Some \<lparr>umap_params = rec_params, umap_pairs =
      {(p, q). \<exists>e i. p = Pt e ''S'' [i - 1] \<and> q = Pt e ''S'' [i] \<and> 1 \<le> i \<and> i < e ''N''}\<rparr>"
  "WAW two_deps = Some \<lparr>umap_params = rec_params, umap_pairs = {}\<rparr>"
  "WAR two_deps = Some \<lparr>umap_params = rec_params, umap_pairs = {}\<rparr>"
proof -
  from two_info obtain r w s where
    I: "Read (collectInfo two_scop) = Some r" "Write (collectInfo two_scop) = Some w"
    "Schedule (collectInfo two_scop) = Some s"
    and ps: "umap_params r = rec_params" "umap_params w = rec_params"
    "umap_params s = rec_params"
    by blast
  let ?mw = "isl_union_map_empty (getParamSpace two_scop)"
  have mw: "MayWrite (collectInfo two_scop) = Some ?mw" "umap_params ?mw = rec_params"
    "umap_pairs ?mw = {}"
    by (simp_all add: collectInfo_pairs(3) isl_union_map_empty_def two_scop_def)
  note fl = two_flow [OF collectInfo_pairs(1) [OF I(1), unfolded two_reads]
      collectInfo_pairs(2) [OF I(2), unfolded two_writes] mw(3)
      collectInfo_pairs(4) [OF I(3), unfolded two_scatterings_current]]
  have f1: "flow_params r w ?mw s = Some rec_params"
    by (rule flow_params_same [OF ps(1) ps(2) mw(2) ps(3)])
  have f2: "flow_params w w r s = Some rec_params"
    by (rule flow_params_same [OF ps(2) ps(2) ps(1) ps(3)])
  show "RAW two_deps = Some \<lparr>umap_params = rec_params, umap_pairs =
      {(p, q). \<exists>e i. p = Pt e ''S'' [i - 1] \<and> q = Pt e ''S'' [i] \<and> 1 \<le> i \<and> i < e ''N''}\<rparr>"
    by (simp add: two_deps_def runOnScop_fields first_flow_def I mw(1) isl_flow_pairs [OF f1] fl)
  show "WAW two_deps = Some \<lparr>umap_params = rec_params, umap_pairs = {}\<rparr>"
    by (simp add: two_deps_def runOnScop_fields second_flow_def I isl_flow_pairs [OF f2] fl)
  show "WAR two_deps = Some \<lparr>umap_params = rec_params, umap_pairs = {}\<rparr>"
    by (simp add: two_deps_def runOnScop_fields second_flow_def I isl_flow_pairs [OF f2] fl)
qed

lemma two_deps_computed: "computed two_deps"
  by (simp add: computed_def two_cache)

lemma two_deps_named: "named_cache two_deps"
  by (simp add: named_cache_def two_cache rec_params_def has_named_params_def)

lemma two_all_deps:
  "all_deps two_deps =
     {(p, q). \<exists>e i. p = Pt e ''S'' [i - 1] \<and> q = Pt e ''S'' [i] \<and> 1 \<le> i \<and> i < e ''N''}"
  by (simp add: all_deps_def selected_def two_cache)

lemma two_dep: "(Pt (at_N 2) ''S'' [0], Pt (at_N 2) ''S'' [1]) \<in> all_deps two_deps"
  unfolding two_all_deps
  by (simp add: at_N_def)

lemma two_named_schedules:
  "named_schedules two_scop Map.empty" "named_schedules two_scop rec_elsewhere"
  by (simp_all add: named_schedules_def StmtScat_def two_scop_def init_stmt_def rec_stmt_def
      rec_sched_def rec_elsewhere_def rec_params_def has_named_params_def)

lemma two_uniform_current: "uniform_time two_scop Map.empty"
  by (auto simp: uniform_time_def StmtScat_def two_scop_def init_stmt_def rec_stmt_def
      rec_sched_def space_of_def)

lemma two_not_uniform: "\<not> uniform_time two_scop rec_elsewhere"
proof
  assume "uniform_time two_scop rec_elsewhere"
  moreover have "(Pt (at_N 2) ''S'' [0], Pt (at_N 2) ''reversed'' [1])
      \<in> map_pairs (StmtScat rec_elsewhere rec_stmt)"
    by (simp add: StmtScat_def rec_elsewhere_def rec_stmt_def at_N_def)
  ultimately have "space_of (Pt (at_N 2) ''reversed'' [1]) =
      map_out (StmtScat rec_elsewhere (hd (stmts two_scop)))"
    unfolding uniform_time_def by (fastforce simp: two_scop_def)
  then show False
    by (simp add: space_of_def StmtScat_def two_scop_def init_stmt_def rec_elsewhere_def)
qed

lemma two_deltas_elsewhere: "time_deltas two_deps two_scop rec_elsewhere = {[- 1]}"
proof -
  have "(Pt (at_N 2) ''reversed'' [1], Pt (at_N 2) ''reversed'' [0])
      \<in> time_pairs (all_deps two_deps) (scatterings_of rec_elsewhere (stmts two_scop))"
    by (rule time_pairsI [OF two_dep]) (simp_all add: two_scatterings_elsewhere at_N_def)
  then have "vec_sub (coords (Pt (at_N 2) ''reversed'' [0]))
                     (coords (Pt (at_N 2) ''reversed'' [1]))
      \<in> time_deltas two_deps two_scop rec_elsewhere"
    unfolding time_deltas_def by (rule rev_image_eqI) simp
  moreover have "time_deltas two_deps two_scop rec_elsewhere \<subseteq> {[- 1]}"
    unfolding time_deltas_def time_pairs_def two_all_deps two_scatterings_elsewhere
    by auto
  ultimately show ?thesis by auto
qed

lemma two_first_space_deltas: "first_space_deltas two_deps two_scop rec_elsewhere = {}"
proof -
  have "stmts two_scop = init_stmt # [rec_stmt]"
    by (simp add: two_scop_def)
  moreover have "map_out (StmtScat rec_elsewhere init_stmt) = (''scattering'', 1)"
    by (simp add: StmtScat_def init_stmt_def rec_elsewhere_def)
  moreover have "space_of ta \<noteq> (''scattering'', 1)"
    if "(ta, tb) \<in> time_pairs (all_deps two_deps)
          (scatterings_of rec_elsewhere (stmts two_scop))" for ta tb
    using that unfolding time_pairs_def two_all_deps two_scatterings_elsewhere
    by (auto simp: space_of_def)
  ultimately show ?thesis
    by (auto simp: first_space_deltas_def)
qed

lemma two_elsewhere_accepted: "isValidScattering False two_deps two_scop rec_elsewhere"
  by (simp add: isValidScattering_first_space [OF two_deps_computed two_named_schedules(2)]
      two_first_space_deltas)

section \<open>A parameter without a name, a conditional store, an exhausted primitive\<close>

lemma unnamed_mismatch: "space_mismatch unnamed_scop"
proof -
  have "(Pt (at_N 1) ''S'' [0], Pt (at_N 1) ''scattering'' [0]) \<in> map_pairs rec_sched"
    by (simp add: rec_sched_def)
  then have "map_pairs (getScattering rec_stmt) \<noteq> {}"
    by (auto simp: rec_stmt_def)
  then have "unaligned [[]] (Some (getScattering rec_stmt))"
    by (simp add: unaligned_def align_params_def has_named_params_def rec_stmt_def
        rec_sched_def rec_params_def)
  then show ?thesis
    by (simp add: space_mismatch_def unnamed_scop_def)
qed

lemma unnamed_cache:
  "RAW (runOnScop flow unnamed_scop D) = None" "WAR (runOnScop flow unnamed_scop D) = None"
  "WAW (runOnScop flow unnamed_scop D) = None"
  using runOnScop_null_union [OF space_mismatch_null_union [OF unnamed_mismatch], of flow D]
  by simp_all

lemma may_info:
  "\<exists>r w s. Read (collectInfo may_scop) = Some r \<and> Write (collectInfo may_scop) = Some w \<and>
     Schedule (collectInfo may_scop) = Some s"
  by (simp add: collectInfo_def collectStmt_def collectAccess_def Let_def may_scop_def
      may_stmt_def isRead_def ptr_bind2_def isl_map_intersect_domain_def rec_read_def
      rec_write_def rec_domain_def rec_sched_def isl_union_map_empty_def add_map_same)

lemma may_named: "named_scop may_scop"
  by (simp add: named_scop_def may_scop_def may_stmt_def rec_domain_def rec_read_def
      rec_write_def rec_sched_def rec_params_def has_named_params_def)

lemma may_scop_writes:
  "accesses_of (\<lambda>m. \<not> isRead m) (stmts may_scop) =
     {(p, q). \<exists>e i. p = Pt e ''S'' [i] \<and> q = Pt e ''A'' [i] \<and> 0 \<le> i \<and> i < e ''N''}"
  by (auto simp: accesses_of_def acc_pairs_def may_scop_def may_stmt_def
      isRead_def rec_write_def rec_domain_def)

lemma may_scop_may_writes:
  "accesses_of (\<lambda>m. getKind m = MayWriteAccess) (stmts may_scop) =
     {(p, q). \<exists>e i. p = Pt e ''S'' [i] \<and> q = Pt e ''A'' [i] \<and> 0 \<le> i \<and> i < e ''N''}"
  by (auto simp: accesses_of_def acc_pairs_def may_scop_def may_stmt_def
      rec_write_def rec_domain_def)

lemma may_scop_must_writes:
  "accesses_of (\<lambda>m. getKind m = MustWriteAccess) (stmts may_scop) = {}"
  by (auto simp: accesses_of_def acc_pairs_def may_scop_def may_stmt_def)


lemma releaseMemory_null:
  "RAW (releaseMemory D) = None" "WAR (releaseMemory D) = None" "WAW (releaseMemory D) = None"
  by (simp_all add: releaseMemory_def)

section \<open>The claims\<close>

text \<open>
  C1, at a scop with a may-write access. \<^verbatim>\<open>collectInfo\<close> tests \<^verbatim>\<open>isRead()\<close>
  alone: every access that is not a read goes to \<^verbatim>\<open>Write\<close>, and nothing is ever added
  to \<^verbatim>\<open>MayWrite\<close>. For the recurrence with a conditional store the may-write
  \<open>S[0] \<rightarrow> A[0]\<close> (at \<open>N = 1\<close>) is in \<^verbatim>\<open>Write\<close> although the statement has no
  must-write, \<^verbatim>\<open>MayWrite\<close> is the empty relation it was created as, and the dataflow
  invocation that yields \<open>RAW\<close> receives the may-write among its must-sources and an empty
  may-source, and delivers.
\<close>

theorem C1_may_write_collected_as_must_write:
  "(Pt (at_N 1) ''S'' [0], Pt (at_N 1) ''A'' [0])
     \<in> accesses_of (\<lambda>m. getKind m = MayWriteAccess) (stmts may_scop) \<and>
   accesses_of (\<lambda>m. getKind m = MustWriteAccess) (stmts may_scop) = {} \<and>
   (Pt (at_N 1) ''S'' [0], Pt (at_N 1) ''A'' [0]) \<in> pairs_of (Write (collectInfo may_scop)) \<and>
   MayWrite (collectInfo may_scop) = Some (isl_union_map_empty (getParamSpace may_scop)) \<and>
   pairs_of (MayWrite (collectInfo may_scop)) = {} \<and>
   (\<exists>r w s. Read (collectInfo may_scop) = Some r \<and> Write (collectInfo may_scop) = Some w \<and>
      Schedule (collectInfo may_scop) = Some s \<and>
      RAW (runOnScop isl_flow may_scop Dependences_new) =
        must_dep (isl_flow r w (isl_union_map_empty (getParamSpace may_scop)) s)) \<and>
   computed (runOnScop isl_flow may_scop Dependences_new)"
proof -
  from may_info obtain r w s where
    I: "Read (collectInfo may_scop) = Some r" "Write (collectInfo may_scop) = Some w"
    "Schedule (collectInfo may_scop) = Some s"
    by blast
  have "(Pt (at_N 1) ''S'' [0], Pt (at_N 1) ''A'' [0]) \<in> pairs_of (Write (collectInfo may_scop))"
    by (simp add: pairs_of_def I collectInfo_pairs(2) [OF I(2)] may_scop_writes at_N_def)
  moreover have "RAW (runOnScop isl_flow may_scop Dependences_new) =
      must_dep (isl_flow r w (isl_union_map_empty (getParamSpace may_scop)) s)"
    by (simp add: runOnScop_fields first_flow_def I collectInfo_pairs(3)
        isl_union_map_compute_flow_def)
  moreover have "(Pt (at_N 1) ''S'' [0], Pt (at_N 1) ''A'' [0])
      \<in> accesses_of (\<lambda>m. getKind m = MayWriteAccess) (stmts may_scop)"
    by (simp add: may_scop_may_writes at_N_def)
  moreover have "pairs_of (MayWrite (collectInfo may_scop)) = {}"
    by (simp add: pairs_of_def collectInfo_pairs(3) isl_union_map_empty_def)
  ultimately show ?thesis
    using I may_scop_must_writes collectInfo_pairs(3) [of may_scop]
      named_computed(1) [OF may_named, of Dependences_new]
    by blast
qed

text \<open>
  C2, as amended. Let the cache be computed, let the parameters of the scop, of its
  schedules, of the cache and of the tested set all have names, and let the depth be positive
  and not above the number of schedule coordinates of any statement. The tested set is a set
  of time points: of prefixes, \<open>depth\<close> coordinates long, of the time vectors of the
  schedule. Then \<^verbatim>\<open>isParallelDimension\<close> returns true iff no dependence whose source and
  target time, truncated to \<open>depth\<close> coordinates, both lie in the tested set has a delta
  carried by the last coordinate (all coordinates before the last zero, the last one
  nonzero). A delta with a nonzero coordinate before the last does not block the loop: when
  every delta has one, the result is true. A set that holds no time point, such as a set of
  statement instances, makes the result true whatever the dependences are.
\<close>

theorem C2_isParallel_iff_no_delta_carried_by_last:
  assumes "computed D" and "named_cache D" and "named_schedules S Map.empty"
    and "has_named_params (set_params Dom)"
    and "0 < depth" and "depth < 2 ^ 32" and "deep_enough depth S"
  shows "isParallelDimension D S Dom depth =
           (\<forall>d \<in> depth_deltas D S Dom depth. \<not> carried_by_last d) \<and>
         ((\<forall>d \<in> depth_deltas D S Dom depth. \<not> zero_but_last d)
            \<longrightarrow> isParallelDimension D S Dom depth) \<and>
         ((\<forall>p \<in> set_points Dom. tuple p \<noteq> []) \<longrightarrow> isParallelDimension D S Dom depth)"
proof -
  have iff: "isParallelDimension D S Dom depth =
      (\<forall>d \<in> depth_deltas D S Dom depth. \<not> carried_by_last d)"
    using assms(1,5,6,7,3) by (rule isParallelDimension_iff)
  moreover have "isParallelDimension D S Dom depth"
    if "\<forall>d \<in> depth_deltas D S Dom depth. \<not> zero_but_last d"
    unfolding iff using that by (simp add: carried_by_last_def)
  moreover have "isParallelDimension D S Dom depth"
    if "\<forall>p \<in> set_points Dom. tuple p \<noteq> []"
    using assms(1,5,6,7,3) that by (rule isParallelDimension_no_time_points)
  ultimately show ?thesis by blast
qed

theorem C2_witness:
  "computed nest_deps \<and> named_cache nest_deps \<and> named_schedules nest_scop Map.empty \<and>
   has_named_params (set_params nest_loop) \<and> deep_enough 2 nest_scop \<and>
   depth_deltas nest_deps nest_scop nest_loop 2 = {[1, 0]} \<and>
   isParallelDimension nest_deps nest_scop nest_loop 2 \<and>
   computed rec_deps \<and> named_cache rec_deps \<and> named_schedules rec_scop Map.empty \<and>
   has_named_params (set_params rec_loop) \<and> deep_enough 1 rec_scop \<and>
   depth_deltas rec_deps rec_scop rec_loop 1 = {[1]} \<and>
   \<not> isParallelDimension rec_deps rec_scop rec_loop 1 \<and>
   has_named_params (set_params rec_loop_M) \<and>
   depth_deltas rec_deps rec_scop rec_loop_M 1 = {[1]} \<and>
   \<not> isParallelDimension rec_deps rec_scop rec_loop_M 1 \<and>
   has_named_params (set_params rec_domain) \<and>
   instance_deltas rec_deps rec_scop rec_domain 1 = {[1]} \<and>
   isParallelDimension rec_deps rec_scop rec_domain 1"
proof -
  have named: "has_named_params (set_params nest_loop)" "has_named_params (set_params rec_loop)"
    "has_named_params (set_params rec_loop_M)" "has_named_params (set_params rec_domain)"
    by (simp_all add: nest_loop_def rec_loop_def rec_loop_M_def rec_domain_def rec_params_def
        has_named_params_def)
  have lt: "(1 :: nat) < 2 ^ 32" by simp
  have "isParallelDimension nest_deps nest_scop nest_loop 2"
    using C2_isParallel_iff_no_delta_carried_by_last
      [OF nest_deps_computed nest_deps_named nest_named_schedules named(1) _ _ nest_deep_enough]
    by (simp add: nest_depth_deltas carried_by_last_def zero_but_last_def)
  moreover have "isParallelDimension rec_deps rec_scop rec_loop 1 =
      (\<forall>d \<in> depth_deltas rec_deps rec_scop rec_loop 1. \<not> carried_by_last d)"
    using C2_isParallel_iff_no_delta_carried_by_last
      [OF rec_deps_computed rec_deps_named rec_named_schedules(1) named(2) _ _ rec_deep_enough]
    by simp
  then have "\<not> isParallelDimension rec_deps rec_scop rec_loop 1"
    unfolding rec_depth_deltas by (simp add: carried_by_last_def zero_but_last_def)
  moreover have "isParallelDimension rec_deps rec_scop rec_loop_M 1 =
      (\<forall>d \<in> depth_deltas rec_deps rec_scop rec_loop_M 1. \<not> carried_by_last d)"
    using C2_isParallel_iff_no_delta_carried_by_last
      [OF rec_deps_computed rec_deps_named rec_named_schedules(1) named(3) _ _ rec_deep_enough]
    by simp
  then have "\<not> isParallelDimension rec_deps rec_scop rec_loop_M 1"
    unfolding rec_depth_deltas_M by (simp add: carried_by_last_def zero_but_last_def)
  moreover have "\<forall>p \<in> set_points rec_domain. tuple p \<noteq> []"
    by (auto simp: rec_domain_def)
  then have "isParallelDimension rec_deps rec_scop rec_domain 1"
    using C2_isParallel_iff_no_delta_carried_by_last
      [OF rec_deps_computed rec_deps_named rec_named_schedules(1) named(4) zero_less_one lt
        rec_deep_enough]
    by blast
  ultimately show ?thesis
    using nest_deps_computed nest_deps_named nest_named_schedules nest_deep_enough
      nest_depth_deltas rec_deps_computed rec_deps_named rec_named_schedules(1)
      rec_deep_enough rec_depth_deltas rec_depth_deltas_M rec_instance_deltas named
    by blast
qed

theorem C2_counterexample:
  "\<not> (isParallelDimension rec_deps rec_scop rec_loop 1 =
       (\<forall>d \<in> depth_deltas rec_deps rec_scop rec_loop 1. zero_but_last d)) \<and>
   (\<exists>d \<in> depth_deltas nest_deps nest_scop nest_loop 2. d ! 0 \<noteq> 0) \<and>
   isParallelDimension nest_deps nest_scop nest_loop 2 \<and>
   (\<exists>d \<in> instance_deltas nest_deps nest_scop nest_domain 2. d ! 0 \<noteq> 0) \<and>
   isParallelDimension nest_deps nest_scop nest_domain 2"
proof -
  have "\<forall>d \<in> depth_deltas rec_deps rec_scop rec_loop 1. zero_but_last d"
    unfolding rec_depth_deltas by (simp add: zero_but_last_def)
  moreover have "\<exists>d \<in> depth_deltas nest_deps nest_scop nest_loop 2. d ! 0 \<noteq> 0"
    unfolding nest_depth_deltas by simp
  moreover have "\<exists>d \<in> instance_deltas nest_deps nest_scop nest_domain 2. d ! 0 \<noteq> 0"
    unfolding nest_instance_deltas by simp
  ultimately show ?thesis
    using rec_loop_not_parallel nest_inner_parallel nest_domain_parallel by blast
qed

text \<open>
  C3, as amended. Let the legality check be enabled, the cache computed, and the parameters
  of the scop, of the completed schedule and of the cache all have names. Then
  \<^verbatim>\<open>isValidScattering\<close> returns true iff no delta that lies in the time space of the first
  statement's schedule (target time minus source time of a cached dependence pair whose two
  times, under the completed schedule, both lie in that space) is lexicographically
  non-positive. When the completed schedule maps every statement into that one time space,
  these are all the deltas: the result is true iff no delta is lexicographically
  non-positive, and a zero delta makes it false. Deltas between times of another space are
  not tested.
\<close>

theorem C3_isLegal_tests_first_time_space:
  assumes "\<not> LegalityCheckDisabled" and "computed D" and "named_cache D"
    and "named_schedules S NewScattering"
  shows "isValidScattering LegalityCheckDisabled D S NewScattering =
           (\<forall>d \<in> first_space_deltas D S NewScattering. \<not> lex_nonpositive d) \<and>
         (uniform_time S NewScattering \<longrightarrow>
            isValidScattering LegalityCheckDisabled D S NewScattering =
              (\<forall>d \<in> time_deltas D S NewScattering. \<not> lex_nonpositive d)) \<and>
         (uniform_time S NewScattering \<longrightarrow>
            (\<exists>d \<in> time_deltas D S NewScattering. list_all (\<lambda>x. x = 0) d) \<longrightarrow>
            \<not> isValidScattering LegalityCheckDisabled D S NewScattering)"
proof -
  from assms(1) have off: "LegalityCheckDisabled = False" by simp
  have first: "isValidScattering False D S NewScattering =
      (\<forall>d \<in> first_space_deltas D S NewScattering. \<not> lex_nonpositive d)"
    using assms(2,4) by (rule isValidScattering_first_space)
  moreover have iff: "isValidScattering False D S NewScattering =
      (\<forall>d \<in> time_deltas D S NewScattering. \<not> lex_nonpositive d)"
    if "uniform_time S NewScattering"
    using assms(2,4) that by (rule isValidScattering_iff)
  moreover have "\<not> isValidScattering False D S NewScattering"
    if "uniform_time S NewScattering"
      "\<exists>d \<in> time_deltas D S NewScattering. list_all (\<lambda>x. x = 0) d"
    unfolding iff [OF that(1)] using that(2) zero_nonpositive by blast
  ultimately show ?thesis unfolding off by blast
qed

theorem C3_witness:
  "computed rec_deps \<and> named_cache rec_deps \<and>
   named_schedules rec_scop Map.empty \<and>
   uniform_time rec_scop Map.empty \<and> time_deltas rec_deps rec_scop Map.empty = {[1]} \<and>
   isValidScattering False rec_deps rec_scop Map.empty \<and>
   named_schedules rec_scop rec_reversed \<and>
   uniform_time rec_scop rec_reversed \<and> time_deltas rec_deps rec_scop rec_reversed = {[- 1]} \<and>
   \<not> isValidScattering False rec_deps rec_scop rec_reversed \<and>
   named_schedules rec_scop rec_reversed_M \<and>
   uniform_time rec_scop rec_reversed_M \<and>
   time_deltas rec_deps rec_scop rec_reversed_M = {[- 1]} \<and>
   \<not> isValidScattering False rec_deps rec_scop rec_reversed_M \<and>
   named_schedules rec_scop rec_constant \<and>
   uniform_time rec_scop rec_constant \<and> time_deltas rec_deps rec_scop rec_constant = {[0]} \<and>
   \<not> isValidScattering False rec_deps rec_scop rec_constant \<and>
   computed two_deps \<and> named_cache two_deps \<and> named_schedules two_scop rec_elsewhere \<and>
   first_space_deltas two_deps two_scop rec_elsewhere = {} \<and>
   isValidScattering False two_deps two_scop rec_elsewhere"
proof -
  have "isValidScattering False rec_deps rec_scop Map.empty =
      (\<forall>d \<in> time_deltas rec_deps rec_scop Map.empty. \<not> lex_nonpositive d)"
    using C3_isLegal_tests_first_time_space
      [of False, OF _ rec_deps_computed rec_deps_named rec_named_schedules(1)] rec_uniform(1)
    by blast
  then have "isValidScattering False rec_deps rec_scop Map.empty"
    unfolding rec_deltas_current by (simp add: lex_nonpositive_def)
  moreover have "isValidScattering False rec_deps rec_scop rec_reversed =
      (\<forall>d \<in> time_deltas rec_deps rec_scop rec_reversed. \<not> lex_nonpositive d)"
    using C3_isLegal_tests_first_time_space
      [of False, OF _ rec_deps_computed rec_deps_named rec_named_schedules(2)] rec_uniform(2)
    by blast
  then have "\<not> isValidScattering False rec_deps rec_scop rec_reversed"
    unfolding rec_deltas_reversed by (simp add: lex_nonpositive_def)
  moreover have "isValidScattering False rec_deps rec_scop rec_reversed_M =
      (\<forall>d \<in> time_deltas rec_deps rec_scop rec_reversed_M. \<not> lex_nonpositive d)"
    using C3_isLegal_tests_first_time_space
      [of False, OF _ rec_deps_computed rec_deps_named rec_named_schedules(3)] rec_uniform(3)
    by blast
  then have "\<not> isValidScattering False rec_deps rec_scop rec_reversed_M"
    unfolding rec_deltas_reversed_M by (simp add: lex_nonpositive_def)
  moreover have "\<exists>d \<in> time_deltas rec_deps rec_scop rec_constant. list_all (\<lambda>x. x = 0) d"
    unfolding rec_deltas_constant by simp
  then have "\<not> isValidScattering False rec_deps rec_scop rec_constant"
    using C3_isLegal_tests_first_time_space
      [of False, OF _ rec_deps_computed rec_deps_named rec_named_schedules(4)] rec_uniform(4)
    by blast
  moreover have "isValidScattering False two_deps two_scop rec_elsewhere =
      (\<forall>d \<in> first_space_deltas two_deps two_scop rec_elsewhere. \<not> lex_nonpositive d)"
    using C3_isLegal_tests_first_time_space
      [of False, OF _ two_deps_computed two_deps_named two_named_schedules(2)]
    by blast
  then have "isValidScattering False two_deps two_scop rec_elsewhere"
    unfolding two_first_space_deltas by simp
  ultimately show ?thesis
    using rec_deps_computed rec_deps_named rec_named_schedules rec_uniform
      rec_deltas_current rec_deltas_reversed rec_deltas_reversed_M rec_deltas_constant
      two_deps_computed two_deps_named two_named_schedules(2) two_first_space_deltas
    by blast
qed

theorem C3_counterexample:
  "computed two_deps \<and> uniform_time two_scop Map.empty \<and>
   time_deltas two_deps two_scop rec_elsewhere = {[- 1]} \<and> lex_nonpositive [- 1] \<and>
   isValidScattering False two_deps two_scop rec_elsewhere \<and>
   \<not> (isValidScattering False two_deps two_scop rec_elsewhere =
       (\<forall>d \<in> time_deltas two_deps two_scop rec_elsewhere. \<not> lex_nonpositive d))"
proof -
  have np: "lex_nonpositive [- 1]"
    by (simp add: lex_nonpositive_def)
  then have "\<not> (\<forall>d \<in> time_deltas two_deps two_scop rec_elsewhere. \<not> lex_nonpositive d)"
    unfolding two_deltas_elsewhere by simp
  then show ?thesis
    using two_deps_computed two_uniform_current two_deltas_elsewhere np
      two_elsewhere_accepted
    by blast
qed

text \<open>
  C4. When the cache has been computed for the scop under its current schedules, by a
  dataflow primitive that relates a source to a sink only if the schedule runs the source
  first, and the schedule gives every instance one time, \<^verbatim>\<open>isValidScattering\<close> applied
  to the empty candidate returns true.
\<close>

theorem C4_current_schedule_is_legal:
  assumes "flow_in_order flow" and "single_valued_schedule S"
  shows "isValidScattering LegalityCheckDisabled (runOnScop flow S D) S Map.empty = True"
  using current_schedule_valid [OF assms] by simp

theorem C4_witness:
  "flow_in_order isl_flow \<and> single_valued_schedule rec_scop \<and>
   all_deps (runOnScop isl_flow rec_scop Dependences_new) \<noteq> {} \<and>
   isValidScattering False (runOnScop isl_flow rec_scop Dependences_new) rec_scop Map.empty"
proof -
  have "all_deps (runOnScop isl_flow rec_scop Dependences_new) \<noteq> {}"
    using rec_dep unfolding rec_deps_def by blast
  then show ?thesis
    using C4_current_schedule_is_legal [OF isl_flow_in_order rec_single_valued, of False Dependences_new]
    by (simp add: isl_flow_in_order rec_single_valued)
qed

text \<open>
  C5, as amended. \<^verbatim>\<open>runOnScop\<close> has no failure of its own and tests no parameter space:
  for every scop it invokes the dataflow entry point twice, on whatever \<^verbatim>\<open>collectInfo\<close>
  has built, and keeps what the two invocations deliver. Where the parameter spaces of the
  scop are mismatched (the schedule or an access relation of a statement is not empty and
  is written over other parameters than the parameter space of the scop, and one of the two
  has a parameter without a name, or the engine cannot align an access relation with its
  iteration domain), and only there, the engine fails while the unions are built and leaves
  one of \<^verbatim>\<open>Read\<close>, \<^verbatim>\<open>Write\<close>, \<^verbatim>\<open>Schedule\<close> null. With a null union the entry
  point is invoked all the same and delivers null: all of \<open>RAW\<close>, \<open>WAR\<close>, \<open>WAW\<close> are
  left absent, and a legality query on that cache returns true. What does hold of the claim: when all
  four unions are present, their parameters can be aligned, so the primitive never computes
  on relations of parameter spaces that cannot be aligned.
\<close>

theorem C5_compute_tests_no_parameter_space:
  "flow_calls (runOnScop flow S D) = flow_calls D + 2 \<and>
   RAW (runOnScop flow S D) = must_dep (first_flow flow S) \<and>
   WAW (runOnScop flow S D) = must_dep (second_flow flow S) \<and>
   WAR (runOnScop flow S D) = may_dep (second_flow flow S) \<and>
   space_mismatch S =
     (Read (collectInfo S) = None \<or> Write (collectInfo S) = None \<or>
      Schedule (collectInfo S) = None) \<and>
   (space_mismatch S \<longrightarrow>
      RAW (runOnScop flow S D) = None \<and> WAR (runOnScop flow S D) = None \<and>
      WAW (runOnScop flow S D) = None \<and>
      isValidScattering False (runOnScop flow S D) S NewScattering) \<and>
   (\<forall>r w mw s.
      Read (collectInfo S) = Some r \<and> Write (collectInfo S) = Some w \<and>
      MayWrite (collectInfo S) = Some mw \<and> Schedule (collectInfo S) = Some s \<longrightarrow>
      flow_params r w mw s \<noteq> None \<and> flow_params w w r s \<noteq> None)"
proof -
  have "RAW (runOnScop flow S D) = None \<and> WAR (runOnScop flow S D) = None \<and>
      WAW (runOnScop flow S D) = None \<and>
      isValidScattering False (runOnScop flow S D) S NewScattering"
    if "space_mismatch S"
  proof -
    from that have "Read (collectInfo S) = None \<or> Write (collectInfo S) = None \<or>
        Schedule (collectInfo S) = None"
      by (rule space_mismatch_null_union)
    then have null: "RAW (runOnScop flow S D) = None" "WAR (runOnScop flow S D) = None"
      "WAW (runOnScop flow S D) = None"
      by (rule runOnScop_null_union)+
    from getDependences_null [OF null(1)]
    have "isValidScattering False (runOnScop flow S D) S NewScattering"
      using isValidScattering_null by simp
    with null show ?thesis by simp
  qed
  then show ?thesis
    using runOnScop_fields [of flow S D] flow_operands_aligned [of S]
      space_mismatch_iff [of S]
    by blast
qed

theorem C5_witness:
  "space_mismatch unnamed_scop \<and>
   RAW (runOnScop isl_flow unnamed_scop rec_deps) = None \<and>
   WAR (runOnScop isl_flow unnamed_scop rec_deps) = None \<and>
   WAW (runOnScop isl_flow unnamed_scop rec_deps) = None \<and>
   flow_calls (runOnScop isl_flow unnamed_scop rec_deps) = flow_calls rec_deps + 2 \<and>
   (\<exists>r w mw s.
      Read (collectInfo rec_scop) = Some r \<and> Write (collectInfo rec_scop) = Some w \<and>
      MayWrite (collectInfo rec_scop) = Some mw \<and> Schedule (collectInfo rec_scop) = Some s \<and>
      flow_params r w mw s \<noteq> None \<and> flow_params w w r s \<noteq> None)"
proof -
  from rec_info collectInfo_pairs(3) [of rec_scop] obtain r w mw s where
    I: "Read (collectInfo rec_scop) = Some r" "Write (collectInfo rec_scop) = Some w"
    "MayWrite (collectInfo rec_scop) = Some mw" "Schedule (collectInfo rec_scop) = Some s"
    by blast
  with C5_compute_tests_no_parameter_space [of isl_flow rec_scop rec_deps Map.empty]
  have "flow_params r w mw s \<noteq> None \<and> flow_params w w r s \<noteq> None"
    by blast
  with I have "\<exists>r w mw s.
      Read (collectInfo rec_scop) = Some r \<and> Write (collectInfo rec_scop) = Some w \<and>
      MayWrite (collectInfo rec_scop) = Some mw \<and> Schedule (collectInfo rec_scop) = Some s \<and>
      flow_params r w mw s \<noteq> None \<and> flow_params w w r s \<noteq> None"
    by blast
  then show ?thesis
    using C5_compute_tests_no_parameter_space [of isl_flow unnamed_scop rec_deps Map.empty]
      unnamed_mismatch
    by blast
qed

theorem C5_counterexample:
  "space_mismatch unnamed_scop \<and>
   flow_calls (runOnScop isl_flow unnamed_scop Dependences_new) = 2 \<and>
   RAW (runOnScop isl_flow unnamed_scop Dependences_new) = None \<and>
   WAR (runOnScop isl_flow unnamed_scop Dependences_new) = None \<and>
   WAW (runOnScop isl_flow unnamed_scop Dependences_new) = None \<and>
   isValidScattering False (runOnScop isl_flow unnamed_scop Dependences_new)
     unnamed_scop rec_reversed"
proof -
  have "isValidScattering False (runOnScop isl_flow unnamed_scop Dependences_new)
      unnamed_scop rec_reversed"
    using isValidScattering_null [OF getDependences_null [OF unnamed_cache(1)]] by simp
  then show ?thesis
    using unnamed_mismatch unnamed_cache [of isl_flow Dependences_new]
    by (simp add: runOnScop_fields Dependences_new_def)
qed

text \<open>
  C6, as amended. After \<^verbatim>\<open>releaseMemory\<close> and before the next \<^verbatim>\<open>runOnScop\<close> no query
  recomputes or signals a failure: \<^verbatim>\<open>getDependences\<close> returns the null relation (never
  a relation of the invalidated cache), \<^verbatim>\<open>isValidScattering\<close> and
  \<^verbatim>\<open>isParallelDimension\<close>, evaluated on that null relation, return true, and the cache
  stays as it was.
\<close>

theorem C6_queries_on_an_invalidated_cache:
  "getDependences (releaseMemory D) Kinds = None \<and>
   isValidScattering LegalityCheckDisabled (releaseMemory D) S NewScattering = True \<and>
   isParallelDimension (releaseMemory D) S Dom ParallelDim = True \<and>
   serve flow (QueryDependences Kinds) (releaseMemory D) = releaseMemory D \<and>
   serve flow (QueryValidScattering S NewScattering) (releaseMemory D) = releaseMemory D \<and>
   serve flow (QueryParallelDimension S Dom ParallelDim) (releaseMemory D) = releaseMemory D"
  using getDependences_null [OF releaseMemory_null(1)]
    isValidScattering_null [OF getDependences_null [OF releaseMemory_null(1)]]
    isParallelDimension_null [OF getDependences_null [OF releaseMemory_null(1)]]
  by simp

theorem C6_witness:
  "getDependences (releaseMemory rec_deps) TYPE_ALL = None \<and>
   isValidScattering False (releaseMemory rec_deps) rec_scop rec_reversed \<and>
   isParallelDimension (releaseMemory rec_deps) rec_scop rec_loop 1"
  using C6_queries_on_an_invalidated_cache [of rec_deps TYPE_ALL False rec_scop rec_reversed rec_loop 1]
  by simp

theorem C6_counterexample:
  "isValidScattering False (releaseMemory rec_deps) rec_scop rec_reversed \<and>
   \<not> isValidScattering False (runOnScop isl_flow rec_scop (releaseMemory rec_deps))
       rec_scop rec_reversed \<and>
   isParallelDimension (releaseMemory rec_deps) rec_scop rec_loop 1 \<and>
   \<not> isParallelDimension (runOnScop isl_flow rec_scop (releaseMemory rec_deps))
       rec_scop rec_loop 1 \<and>
   \<not> computed (serve isl_flow (QueryValidScattering rec_scop rec_reversed)
                 (releaseMemory rec_deps))"
proof -
  let ?D = "runOnScop isl_flow rec_scop (releaseMemory rec_deps)"
  have same: "RAW ?D = RAW rec_deps" "WAR ?D = WAR rec_deps" "WAW ?D = WAW rec_deps"
    by (simp_all add: rec_deps_def runOnScop_fields)
  have "\<not> isValidScattering False ?D rec_scop rec_reversed"
    using query_cong(2) [OF same] rec_reversed_illegal by simp
  moreover have "\<not> isParallelDimension ?D rec_scop rec_loop 1"
    using query_cong(3) [OF same] rec_loop_not_parallel by blast
  moreover have "isValidScattering False (releaseMemory rec_deps) rec_scop rec_reversed"
    using isValidScattering_null [OF getDependences_null [OF releaseMemory_null(1)]] by simp
  moreover have "isParallelDimension (releaseMemory rec_deps) rec_scop rec_loop 1"
    using isParallelDimension_null [OF getDependences_null [OF releaseMemory_null(1)]]
    by blast
  moreover have "\<not> computed (serve isl_flow (QueryValidScattering rec_scop rec_reversed)
                 (releaseMemory rec_deps))"
    by (simp add: computed_def releaseMemory_def)
  ultimately show ?thesis by blast
qed




text \<open>
  C8. When the legality check is disabled (\<^verbatim>\<open>-disable-polly-legality\<close>),
  \<^verbatim>\<open>isValidScattering\<close> returns true for every candidate schedule, whatever the
  cache holds: the test of the option comes before the cache is read.
\<close>

theorem C8_disabled_legality_check:
  "isValidScattering True D S NewScattering = True"
  unfolding isValidScattering_def by simp

theorem C8_witness:
  "\<not> isValidScattering False rec_deps rec_scop rec_reversed \<and>
   isValidScattering True rec_deps rec_scop rec_reversed \<and>
   isValidScattering True (releaseMemory rec_deps) rec_scop rec_reversed"
  using C8_disabled_legality_check [of rec_deps rec_scop rec_reversed]
    C8_disabled_legality_check [of "releaseMemory rec_deps" rec_scop rec_reversed]
    rec_reversed_illegal
  by simp

text \<open>
  C9. On a computed cache, \<^verbatim>\<open>getDependences\<close> with one mask returns the same relation
  before and after any sequence of queries (no invalidation, no recomputation between the
  two calls), and the relation it returns holds exactly the pairs of the requested kinds.
\<close>

theorem C9_getDependences_repeatable:
  assumes "computed D" and "list_all is_query requests"
  shows "getDependences (fold (serve flow) requests D) Kinds = getDependences D Kinds \<and>
         (\<exists>u. getDependences D Kinds = Some u \<and> umap_pairs u = requested Kinds D)"
proof -
  from assms(1) obtain r a w where c: "RAW D = Some r" "WAR D = Some a" "WAW D = Some w"
    by (auto simp: computed_def)
  from getDependences_pairs [OF c, of Kinds] obtain u where
    "getDependences D Kinds = Some u" "umap_pairs u = requested Kinds D"
    by blast
  then show ?thesis
    using fold_serve_queries [OF assms(2), of flow D]
    by simp
qed

theorem C9_witness:
  "computed rec_deps \<and>
   list_all is_query [QueryDependences TYPE_ALL, QueryValidScattering rec_scop rec_reversed,
                      QueryParallelDimension rec_scop rec_loop 1] \<and>
   getDependences (fold (serve isl_flow)
       [QueryDependences TYPE_ALL, QueryValidScattering rec_scop rec_reversed,
        QueryParallelDimension rec_scop rec_loop 1] rec_deps) TYPE_ALL =
     getDependences rec_deps TYPE_ALL \<and>
   (\<exists>u. getDependences rec_deps TYPE_ALL = Some u \<and>
        umap_pairs u = requested TYPE_ALL rec_deps)"
  using C9_getDependences_repeatable [OF rec_deps_computed, of
      "[QueryDependences TYPE_ALL, QueryValidScattering rec_scop rec_reversed,
        QueryParallelDimension rec_scop rec_loop 1]" isl_flow TYPE_ALL]
    rec_deps_computed
  by auto

text \<open>
  C10. On a computed cache, \<^verbatim>\<open>getDependences\<close> with a mask that selects none of the
  three kinds returns the empty relation over the parameters of \<open>RAW\<close>, not a null
  relation.
\<close>

theorem C10_empty_mask_gives_empty_relation:
  assumes "computed D"
    and "Kinds AND TYPE_RAW = 0" and "Kinds AND TYPE_WAR = 0" and "Kinds AND TYPE_WAW = 0"
  shows "getDependences D Kinds =
           Some \<lparr>umap_params = umap_params (the (RAW D)), umap_pairs = {}\<rparr>"
proof -
  from assms(1) obtain r where r: "RAW D = Some r"
    by (auto simp: computed_def)
  from getDependences_none_selected [OF r assms(2-4)] show ?thesis
    by (simp add: r isl_union_map_empty_def isl_union_map_get_space_def)
qed

theorem C10_witness:
  "computed rec_deps \<and> (0 :: 32 word) AND TYPE_RAW = 0 \<and> (0 :: 32 word) AND TYPE_WAR = 0 \<and>
   (0 :: 32 word) AND TYPE_WAW = 0 \<and>
   getDependences rec_deps 0 = Some \<lparr>umap_params = [''N''], umap_pairs = {}\<rparr> \<and>
   (8 :: 32 word) AND TYPE_RAW = 0 \<and> (8 :: 32 word) AND TYPE_WAR = 0 \<and>
   (8 :: 32 word) AND TYPE_WAW = 0 \<and>
   getDependences rec_deps 8 = Some \<lparr>umap_params = [''N''], umap_pairs = {}\<rparr>"
proof -
  have p: "umap_params (the (RAW rec_deps)) = [''N'']"
    by (simp add: rec_cache rec_params_def)
  have m: "(8 :: 32 word) AND TYPE_RAW = 0" "(8 :: 32 word) AND TYPE_WAR = 0"
    "(8 :: 32 word) AND TYPE_WAW = 0"
    by (simp_all add: TYPE_RAW_def TYPE_WAR_def TYPE_WAW_def)
  show ?thesis
    using C10_empty_mask_gives_empty_relation [OF rec_deps_computed, of 0]
      C10_empty_mask_gives_empty_relation [OF rec_deps_computed m]
      rec_deps_computed m
    by (simp add: p)
qed

end
